theory Spec2Isabelle
  imports Main "HOL-Library.Multiset"
begin

section \<open>Values, rows, exceptions\<close>

text \<open>
  The program is \<^verbatim>\<open>datatrasnfer.py\<close>: \<^verbatim>\<open>get_connection\<close> and \<^verbatim>\<open>migrate_table\<close>.
  A row is the tuple a cursor hands out; its cells are Python values. Every exception the
  code can meet is a subclass of \<^verbatim>\<open>Exception\<close>: the \<^verbatim>\<open>KeyError\<close> of a missing
  configuration key, or an error raised by the database driver.
\<close>

datatype pyval = PNone | PInt int | PStr string

type_synonym row = "pyval list"

datatype exn = KeyError string | DbError string

text \<open>The keyword arguments of \<^verbatim>\<open>psycopg2.connect\<close> and the configuration dictionary.\<close>

record conn_args =
  host :: pyval
  port :: pyval
  dbname :: pyval
  user :: pyval
  password :: pyval

type_synonym conf = "string \<rightharpoonup> pyval"

text \<open>The four handles of \<^verbatim>\<open>migrate_table\<close>: \<^verbatim>\<open>src_conn\<close>, \<^verbatim>\<open>tgt_conn\<close>,
  \<^verbatim>\<open>src_cur\<close>, \<^verbatim>\<open>tgt_cur\<close>.\<close>

datatype handle = SrcConn | TgtConn | SrcCur | TgtCur

text \<open>One row of \<^verbatim>\<open>information_schema.columns\<close>, with the columns the query reads.\<close>

record catalog_row =
  table_schema :: string
  table_name :: string
  column_name :: string
  ordinal_position :: int

section \<open>Observable events and the state of a run\<close>

text \<open>
  Everything the function does to the outside is recorded, oldest first: the log records
  (one constructor per \<^verbatim>\<open>logging\<close> call of the source, carrying the values its
  f-string formats) and the calls made on the driver (recorded when the call is made,
  whether or not it raises).
\<close>

datatype event =
    LogStart string string string string int
  | LogChunkPrepare nat nat
  | LogChunkCommit nat nat
  | LogChunkError nat exn
  | LogTotal nat string string string string
  | LogFatal exn
  | Connect conn_args
  | Cursor handle
  | Execute handle string "pyval list"
  | Fetchall
  | Fetchmany int
  | Commit
  | Rollback
  | Close handle
  | SysExit int

text \<open>
  The state threaded through the run: the events so far, the handles that are open, and
  the target table as seen through \<^verbatim>\<open>tgt_conn\<close>: the rows that are committed and
  the rows inserted in the current transaction and not yet committed.
\<close>

record state =
  events :: "event list"
  opened :: "handle list"
  committed :: "row list"
  pending :: "row list"

text \<open>
  The environment: what the database driver answers. Each \<^verbatim>\<open>_err\<close> field says whether
  a call raises (\<open>None\<close>: it does not). The insert and commit answers may depend on the
  SQL text, the row and the contents of the target, so that constraint violations are
  expressible. \<open>select_answer\<close> is the server's answer to the text of the SELECT;
  \<open>catalog\<close> holds the rows of \<^verbatim>\<open>information_schema.columns\<close>.
\<close>

record world =
  connect_err :: "conn_args \<Rightarrow> exn option"
  cursor_err :: "handle \<Rightarrow> exn option"
  catalog :: "catalog_row list"
  catalog_err :: "exn option"
  fetchall_err :: "exn option"
  select_answer :: "string \<Rightarrow> exn + row list"
  fetch_err :: "nat \<Rightarrow> exn option"
  insert_err :: "string \<Rightarrow> row \<Rightarrow> row list \<Rightarrow> row list \<Rightarrow> exn option"
  commit_err :: "row list \<Rightarrow> row list \<Rightarrow> exn option"
  rollback_err :: "row list \<Rightarrow> exn option"
  close_err :: "handle \<Rightarrow> exn option"

text \<open>The arguments of \<^verbatim>\<open>migrate_table\<close>.\<close>

record params =
  source_conf :: conf
  target_conf :: conf
  src_schema :: string
  src_table :: string
  tgt_schema :: string
  tgt_table :: string
  chunk_size :: int

text \<open>How the call ends: it returns, or \<^verbatim>\<open>sys.exit\<close> ends the process with a status.\<close>

datatype outcome = Returned | Exited int

fun exit_status :: "outcome \<Rightarrow> int" where
  "exit_status Returned = 0"
| "exit_status (Exited n) = n"

definition emit :: "event \<Rightarrow> state \<Rightarrow> state" where
  "emit ev st = st\<lparr>events := events st @ [ev]\<rparr>"

definition init_state :: "row list \<Rightarrow> state" where
  "init_state tgt_rows = \<lparr>events = [], opened = [], committed = tgt_rows, pending = []\<rparr>"

section \<open>SQL text\<close>

text \<open>\<^verbatim>\<open>sep.join(xs)\<close> on strings.\<close>

fun join :: "string \<Rightarrow> string list \<Rightarrow> string" where
  "join sep [] = []"
| "join sep [x] = x"
| "join sep (x # y # ys) = x @ sep @ join sep (y # ys)"

definition dquote :: string where
  "dquote = [CHR 0x22]"

text \<open>The literal of lines 31-34, with its line breaks and indentation.\<close>

definition catalog_sql :: string where
  "catalog_sql =
     ''\<newline>            SELECT column_name FROM information_schema.columns'' @
     ''\<newline>            WHERE table_schema = %s AND table_name = %s'' @
     ''\<newline>            ORDER BY ordinal_position''"

text \<open>Line 39: \<^verbatim>\<open>f'SELECT {cols_str} FROM "{src_schema}"."{src_table}"'\<close>.\<close>

definition select_sql :: "string \<Rightarrow> string \<Rightarrow> string \<Rightarrow> string" where
  "select_sql cols_str schema table =
     ''SELECT '' @ cols_str @ '' FROM '' @ dquote @ schema @ dquote @ ''.'' @ dquote @ table @ dquote"

text \<open>Line 48:
  \<^verbatim>\<open>f'INSERT INTO "{tgt_schema}"."{tgt_table}" ({cols_str}) VALUES ({placeholders})'\<close>.\<close>

definition insert_sql :: "string \<Rightarrow> string \<Rightarrow> string \<Rightarrow> string \<Rightarrow> string" where
  "insert_sql schema table cols_str placeholders =
     ''INSERT INTO '' @ dquote @ schema @ dquote @ ''.'' @ dquote @ table @ dquote @
     '' ('' @ cols_str @ '') VALUES ('' @ placeholders @ '')''"

section \<open>Connections\<close>

text \<open>
  \<^verbatim>\<open>get_connection(conf)\<close>: the five dictionary lookups, in the order the call writes
  them (a missing key raises \<^verbatim>\<open>KeyError\<close>), then \<^verbatim>\<open>psycopg2.connect\<close>.
\<close>

definition conn_args_of :: "conf \<Rightarrow> exn + conn_args" where
  "conn_args_of c =
     (case c ''host'' of None \<Rightarrow> Inl (KeyError ''host'') | Some h \<Rightarrow>
     (case c ''port'' of None \<Rightarrow> Inl (KeyError ''port'') | Some pt \<Rightarrow>
     (case c ''database'' of None \<Rightarrow> Inl (KeyError ''database'') | Some d \<Rightarrow>
     (case c ''user'' of None \<Rightarrow> Inl (KeyError ''user'') | Some u \<Rightarrow>
     (case c ''password'' of None \<Rightarrow> Inl (KeyError ''password'') | Some pw \<Rightarrow>
      Inr \<lparr>host = h, port = pt, dbname = d, user = u, password = pw\<rparr>)))))"

definition get_connection :: "world \<Rightarrow> conf \<Rightarrow> state \<Rightarrow> (exn \<times> state) + state" where
  "get_connection w c st =
     (case conn_args_of c of
        Inl e \<Rightarrow> Inl (e, st)
      | Inr a \<Rightarrow>
          (case connect_err w a of
             Some e \<Rightarrow> Inl (e, emit (Connect a) st)
           | None \<Rightarrow> Inr (emit (Connect a) st)))"

definition mark_open :: "handle \<Rightarrow> state \<Rightarrow> state" where
  "mark_open h st = st\<lparr>opened := opened st @ [h]\<rparr>"

text \<open>\<^verbatim>\<open>conn.cursor()\<close> on the connection \<open>c\<close>, giving the cursor \<open>h\<close>.\<close>

definition cursor :: "world \<Rightarrow> handle \<Rightarrow> handle \<Rightarrow> state \<Rightarrow> (exn \<times> state) + state" where
  "cursor w c h st =
     (case cursor_err w c of
        Some e \<Rightarrow> Inl (e, emit (Cursor c) st)
      | None \<Rightarrow> Inr (mark_open h (emit (Cursor c) st)))"

text \<open>Lines 26-29.\<close>

definition open_handles :: "world \<Rightarrow> params \<Rightarrow> state \<Rightarrow> (exn \<times> state) + state" where
  "open_handles w p st =
     (case get_connection w (source_conf p) st of Inl x \<Rightarrow> Inl x | Inr st1 \<Rightarrow>
     (case get_connection w (target_conf p) (mark_open SrcConn st1) of Inl x \<Rightarrow> Inl x | Inr st2 \<Rightarrow>
     (case cursor w SrcConn SrcCur (mark_open TgtConn st2) of Inl x \<Rightarrow> Inl x | Inr st3 \<Rightarrow>
      cursor w TgtConn TgtCur st3)))"

section \<open>Schema introspection\<close>

text \<open>
  What the server computes for the catalog query: the rows of the named schema and
  table, by ordinal position, projected on the column name. Each result row is a
  1-tuple and the comprehension of line 35 takes its component 0.
\<close>

definition in_table :: "string \<Rightarrow> string \<Rightarrow> catalog_row \<Rightarrow> bool" where
  "in_table schema table c = (table_schema c = schema \<and> table_name c = table)"

definition columns_query :: "catalog_row list \<Rightarrow> string \<Rightarrow> string \<Rightarrow> string list" where
  "columns_query cat schema table =
     map column_name (sort_key ordinal_position (filter (in_table schema table) cat))"

text \<open>Lines 31-35.\<close>

definition introspect ::
  "world \<Rightarrow> string \<Rightarrow> string \<Rightarrow> state \<Rightarrow> (exn \<times> state) + (string list \<times> state)" where
  "introspect w schema table st =
     (let st1 = emit (Execute SrcCur catalog_sql [PStr schema, PStr table]) st in
      (case catalog_err w of Some e \<Rightarrow> Inl (e, st1) | None \<Rightarrow>
      (let st2 = emit Fetchall st1 in
       (case fetchall_err w of Some e \<Rightarrow> Inl (e, st2) | None \<Rightarrow>
        Inr (columns_query (catalog w) schema table, st2)))))"

section \<open>Reading\<close>

text \<open>Line 39: the SELECT is sent; the rows of its answer are what the cursor holds.\<close>

definition execute_select ::
  "world \<Rightarrow> string \<Rightarrow> state \<Rightarrow> (exn \<times> state) + (row list \<times> state)" where
  "execute_select w sql st =
     (case select_answer w sql of
        Inl e \<Rightarrow> Inl (e, emit (Execute SrcCur sql []) st)
      | Inr rows \<Rightarrow> Inr (rows, emit (Execute SrcCur sql []) st))"

text \<open>
  \<^verbatim>\<open>cursor.fetchmany(size)\<close> on a cursor holding \<open>cur\<close>: the batch and what is left.
  The driver hands out at most \<open>size\<close> rows; a negative size means all that is left.
\<close>

definition fetchmany :: "int \<Rightarrow> row list \<Rightarrow> row list \<times> row list" where
  "fetchmany n cur =
     (if n < 0 then (cur, []) else (take (nat n) cur, drop (nat n) cur))"

section \<open>Writing one chunk\<close>

text \<open>Lines 50-51: one parameterised INSERT per row, stopping at the first that raises.\<close>

fun insert_rows :: "world \<Rightarrow> string \<Rightarrow> row list \<Rightarrow> state \<Rightarrow> (exn \<times> state) + state" where
  "insert_rows w sql [] st = Inr st"
| "insert_rows w sql (r # rs) st =
     (case insert_err w sql r (committed st) (pending st) of
        Some e \<Rightarrow> Inl (e, emit (Execute TgtCur sql r) st)
      | None \<Rightarrow> insert_rows w sql rs ((emit (Execute TgtCur sql r) st)\<lparr>pending := pending st @ [r]\<rparr>))"

text \<open>\<^verbatim>\<open>tgt_conn.commit()\<close> and \<^verbatim>\<open>tgt_conn.rollback()\<close>.\<close>

definition commit :: "world \<Rightarrow> state \<Rightarrow> (exn \<times> state) + state" where
  "commit w st =
     (case commit_err w (committed st) (pending st) of
        Some e \<Rightarrow> Inl (e, emit Commit st)
      | None \<Rightarrow> Inr ((emit Commit st)\<lparr>committed := committed st @ pending st, pending := []\<rparr>))"

definition rollback :: "world \<Rightarrow> state \<Rightarrow> (exn \<times> state) + state" where
  "rollback w st =
     (case rollback_err w (pending st) of
        Some e \<Rightarrow> Inl (e, emit Rollback st)
      | None \<Rightarrow> Inr ((emit Rollback st)\<lparr>pending := []\<rparr>))"

text \<open>Lines 50-54, the body of the inner \<^verbatim>\<open>try\<close>: the new total and the new state.\<close>

definition write_chunk ::
  "world \<Rightarrow> string \<Rightarrow> nat \<Rightarrow> nat \<Rightarrow> row list \<Rightarrow> state \<Rightarrow> (exn \<times> state) + (nat \<times> state)" where
  "write_chunk w sql chunk_num tot rows st =
     (case insert_rows w sql rows st of Inl x \<Rightarrow> Inl x | Inr st1 \<Rightarrow>
     (case commit w st1 of Inl x \<Rightarrow> Inl x | Inr st2 \<Rightarrow>
      Inr (tot + length rows, emit (LogChunkCommit chunk_num (tot + length rows)) st2)))"

text \<open>
  Lines 49-61, the inner \<^verbatim>\<open>try\<close> with its handler: an exception of the body is
  answered by a rollback and an error record, and the total is left as it was. An
  exception of the rollback itself leaves the handler.
\<close>

definition handle_chunk ::
  "world \<Rightarrow> string \<Rightarrow> nat \<Rightarrow> nat \<Rightarrow> row list \<Rightarrow> state \<Rightarrow> (exn \<times> state) + (nat \<times> state)" where
  "handle_chunk w sql chunk_num tot rows st =
     (case write_chunk w sql chunk_num tot rows st of
        Inr r \<Rightarrow> Inr r
      | Inl (e, st1) \<Rightarrow>
          (case rollback w st1 of
             Inl x \<Rightarrow> Inl x
           | Inr st2 \<Rightarrow> Inr (tot, emit (LogChunkError chunk_num e) st2)))"

section \<open>The transfer loop\<close>

text \<open>
  Lines 42-61. \<open>cur\<close> is what the source cursor still holds, \<open>chunk_num\<close> and \<open>tot\<close>
  are the counters \<^verbatim>\<open>chunk_num\<close> and \<^verbatim>\<open>total\<close>. The loop is \<^verbatim>\<open>while True\<close>: not returning is the value \<open>None\<close>.
\<close>

partial_function (option) transfer_loop ::
  "world \<Rightarrow> params \<Rightarrow> string \<Rightarrow> string \<Rightarrow> row list \<Rightarrow> nat \<Rightarrow> nat \<Rightarrow> state
     \<Rightarrow> ((exn \<times> state) + (nat \<times> state)) option" where
  "transfer_loop w p cols_str placeholders cur chunk_num tot st =
     (case fetch_err w chunk_num of
        Some e \<Rightarrow> Some (Inl (e, emit (Fetchmany (chunk_size p)) st))
      | None \<Rightarrow>
          (case fetchmany (chunk_size p) cur of
             (rows, rest) \<Rightarrow>
               if rows = [] then Some (Inr (tot, emit (Fetchmany (chunk_size p)) st))
               else
                 (case handle_chunk w
                         (insert_sql (tgt_schema p) (tgt_table p) cols_str placeholders)
                         (chunk_num + 1) tot rows
                         (emit (LogChunkPrepare (chunk_num + 1) (length rows))
                            (emit (Fetchmany (chunk_size p)) st)) of
                    Inl x \<Rightarrow> Some (Inl x)
                  | Inr (tot', st') \<Rightarrow>
                      transfer_loop w p cols_str placeholders rest (chunk_num + 1) tot' st')))"

declare transfer_loop.simps [code]

section \<open>Closing and the whole function\<close>

definition close :: "world \<Rightarrow> handle \<Rightarrow> state \<Rightarrow> (exn \<times> state) + state" where
  "close w h st =
     (case close_err w h of
        Some e \<Rightarrow> Inl (e, emit (Close h) st)
      | None \<Rightarrow> Inr ((emit (Close h) st)\<lparr>opened := removeAll h (opened st)\<rparr>))"

text \<open>Lines 64-67.\<close>

definition close_all :: "world \<Rightarrow> state \<Rightarrow> (exn \<times> state) + state" where
  "close_all w st =
     (case close w SrcCur st of Inl x \<Rightarrow> Inl x | Inr st1 \<Rightarrow>
     (case close w SrcConn st1 of Inl x \<Rightarrow> Inl x | Inr st2 \<Rightarrow>
     (case close w TgtCur st2 of Inl x \<Rightarrow> Inl x | Inr st3 \<Rightarrow>
      close w TgtConn st3)))"

text \<open>Lines 26-67, the body of the outer \<^verbatim>\<open>try\<close>.\<close>

definition migrate_body :: "world \<Rightarrow> params \<Rightarrow> state \<Rightarrow> ((exn \<times> state) + state) option" where
  "migrate_body w p st =
     (case open_handles w p st of Inl x \<Rightarrow> Some (Inl x) | Inr st1 \<Rightarrow>
     (case introspect w (src_schema p) (src_table p) st1 of Inl x \<Rightarrow> Some (Inl x)
      | Inr (columns, st2) \<Rightarrow>
     (case execute_select w (select_sql (join '', '' columns) (src_schema p) (src_table p)) st2 of
        Inl x \<Rightarrow> Some (Inl x)
      | Inr (cur, st3) \<Rightarrow>
     (case transfer_loop w p (join '', '' columns)
             (join '', '' (replicate (length columns) ''%s'')) cur 0 0 st3 of
        None \<Rightarrow> None
      | Some (Inl x) \<Rightarrow> Some (Inl x)
      | Some (Inr (tot, st4)) \<Rightarrow>
          Some (close_all w
            (emit (LogTotal tot (src_schema p) (src_table p) (tgt_schema p) (tgt_table p)) st4))))))"

text \<open>
  \<^verbatim>\<open>migrate_table\<close>, run against a target table holding \<open>tgt_rows\<close>: the start record,
  the body, and the handler of lines 68-70, which logs and calls \<^verbatim>\<open>sys.exit(1)\<close>.
  (\<^verbatim>\<open>setup_logger\<close> only configures the log sink and is left out.)
\<close>

definition migrate_table :: "world \<Rightarrow> params \<Rightarrow> row list \<Rightarrow> (outcome \<times> state) option" where
  "migrate_table w p tgt_rows =
     (case migrate_body w p
             (emit (LogStart (src_schema p) (src_table p) (tgt_schema p) (tgt_table p) (chunk_size p))
                (init_state tgt_rows)) of
        None \<Rightarrow> None
      | Some (Inr st) \<Rightarrow> Some (Returned, st)
      | Some (Inl (e, st)) \<Rightarrow> Some (Exited 1, emit (SysExit 1) (emit (LogFatal e) st)))"

section \<open>Reading the events of a run\<close>

text \<open>The chunks that were attempted: number and size, from the records of line 47.\<close>

fun prepared :: "event \<Rightarrow> (nat \<times> nat) list" where
  "prepared (LogChunkPrepare k n) = [(k, n)]"
| "prepared _ = []"

definition batches_attempted :: "event list \<Rightarrow> (nat \<times> nat) list" where
  "batches_attempted evs = concat (map prepared evs)"

text \<open>How each chunk ended: committed (line 54, \<open>True\<close>) or failed (line 57, \<open>False\<close>).\<close>

fun result_of :: "event \<Rightarrow> (nat \<times> bool) list" where
  "result_of (LogChunkCommit k t) = [(k, True)]"
| "result_of (LogChunkError k e) = [(k, False)]"
| "result_of _ = []"

definition chunk_results :: "event list \<Rightarrow> (nat \<times> bool) list" where
  "chunk_results evs = concat (map result_of evs)"

text \<open>The totals reported by the final record of line 63.\<close>

fun total_of :: "event \<Rightarrow> nat list" where
  "total_of (LogTotal n s1 t1 s2 t2) = [n]"
| "total_of _ = []"

definition reported_totals :: "event list \<Rightarrow> nat list" where
  "reported_totals evs = concat (map total_of evs)"

definition commits :: "event list \<Rightarrow> nat" where
  "commits evs = length (filter (\<lambda>ev. ev = Commit) evs)"

definition rollbacks :: "event list \<Rightarrow> nat" where
  "rollbacks evs = length (filter (\<lambda>ev. ev = Rollback) evs)"

fun is_fetch :: "event \<Rightarrow> bool" where
  "is_fetch (Fetchmany n) = True"
| "is_fetch _ = False"

definition fetches :: "event list \<Rightarrow> nat" where
  "fetches evs = length (filter is_fetch evs)"

text \<open>The state in which a step ended, whether it raised or not.\<close>

fun final_state :: "(exn \<times> state) + ('a \<times> state) \<Rightarrow> state" where
  "final_state (Inl (e, st)) = st"
| "final_state (Inr (x, st)) = st"

section \<open>Conditions on the environment\<close>

definition connects :: "world \<Rightarrow> conf \<Rightarrow> bool" where
  "connects w c = (case conn_args_of c of Inl e \<Rightarrow> False | Inr a \<Rightarrow> connect_err w a = None)"

text \<open>Both connections and both cursors open, and the catalog query answers.\<close>

definition setup_ok :: "world \<Rightarrow> params \<Rightarrow> bool" where
  "setup_ok w p =
     (connects w (source_conf p) \<and> connects w (target_conf p) \<and>
      cursor_err w SrcConn = None \<and> cursor_err w TgtConn = None \<and>
      catalog_err w = None \<and> fetchall_err w = None)"

text \<open>The answer of the server to the SELECT that the run sends.\<close>

definition source_answer :: "world \<Rightarrow> params \<Rightarrow> exn + row list" where
  "source_answer w p =
     select_answer w
       (select_sql (join '', '' (columns_query (catalog w) (src_schema p) (src_table p)))
          (src_schema p) (src_table p))"

definition reads_ok :: "world \<Rightarrow> bool" where
  "reads_ok w = (\<forall>k. fetch_err w k = None)"

definition writes_ok :: "world \<Rightarrow> bool" where
  "writes_ok w =
     ((\<forall>sql r c pd. insert_err w sql r c pd = None) \<and> (\<forall>c pd. commit_err w c pd = None))"

definition rollbacks_ok :: "world \<Rightarrow> bool" where
  "rollbacks_ok w = (\<forall>pd. rollback_err w pd = None)"

definition closes_ok :: "world \<Rightarrow> bool" where
  "closes_ok w = (\<forall>h. close_err w h = None)"

text \<open>Consecutive batches of \<open>b\<close> elements, the last one possibly shorter.\<close>

function chunks :: "nat \<Rightarrow> 'a list \<Rightarrow> 'a list list" where
  "chunks b xs = (if b = 0 \<or> xs = [] then [] else take b xs # chunks b (drop b xs))"
  by pat_completeness auto
termination
  by (relation "measure (\<lambda>(b, xs). length xs)") auto

declare chunks.simps [simp del]


text \<open>The sizes of those batches, by the formula: full batches, then the remainder.\<close>

definition chunk_sizes :: "nat \<Rightarrow> nat \<Rightarrow> nat list" where
  "chunk_sizes b r = replicate (r div b) b @ (if r mod b = 0 then [] else [r mod b])"

text \<open>Events that belong to no chunk: none of the above readings sees them.\<close>

definition no_chunk_events :: "event list \<Rightarrow> bool" where
  "no_chunk_events evs =
     (batches_attempted evs = [] \<and> chunk_results evs = [] \<and> reported_totals evs = [] \<and>
      commits evs = 0 \<and> rollbacks evs = 0)"

text \<open>A step that leaves the target alone and adds only such events.\<close>

definition quiet_step :: "state \<Rightarrow> state \<Rightarrow> bool" where
  "quiet_step st st' =
     (\<exists>evs ops. st' = st\<lparr>events := events st @ evs, opened := ops\<rparr> \<and> no_chunk_events evs)"

section \<open>Concrete environments\<close>

definition conf0 :: conf where
  "conf0 = [''host'' \<mapsto> PStr ''h'', ''port'' \<mapsto> PInt 5432, ''database'' \<mapsto> PStr ''db'',
            ''user'' \<mapsto> PStr ''u'', ''password'' \<mapsto> PStr ''p'']"

definition params0 :: "int \<Rightarrow> params" where
  "params0 b = \<lparr>source_conf = conf0, target_conf = conf0, src_schema = ''public'',
     src_table = ''t'', tgt_schema = ''public'', tgt_table = ''t_copy'', chunk_size = b\<rparr>"

definition catalog0 :: "catalog_row list" where
  "catalog0 =
     [\<lparr>table_schema = ''public'', table_name = ''t'', column_name = ''name'', ordinal_position = 2\<rparr>,
      \<lparr>table_schema = ''public'', table_name = ''u'', column_name = ''k'', ordinal_position = 1\<rparr>,
      \<lparr>table_schema = ''public'', table_name = ''t'', column_name = ''id'', ordinal_position = 1\<rparr>]"

text \<open>An environment in which nothing raises and the source table holds \<open>rows\<close>.\<close>

definition world0 :: "row list \<Rightarrow> world" where
  "world0 rows =
     \<lparr>connect_err = (\<lambda>a. None), cursor_err = (\<lambda>h. None), catalog = catalog0,
      catalog_err = None, fetchall_err = None,
      select_answer = (\<lambda>sql. if sql = select_sql ''id, name'' ''public'' ''t'' then Inr rows
                               else Inl (DbError ''undefined_table'')),
      fetch_err = (\<lambda>k. None), insert_err = (\<lambda>sql r c pd. None), commit_err = (\<lambda>c pd. None),
      rollback_err = (\<lambda>pd. None), close_err = (\<lambda>h. None)\<rparr>"

definition rows3 :: "row list" where
  "rows3 = [[PInt 1, PStr ''a''], [PInt 2, PStr ''b''], [PInt 3, PStr ''c'']]"

text \<open>The same, but the insert of the row \<open>(2, 'b')\<close> raises a constraint violation.\<close>

definition world_dup :: world where
  "world_dup = (world0 rows3)\<lparr>insert_err :=
     (\<lambda>sql r c pd. if r = [PInt 2, PStr ''b''] then Some (DbError ''unique_violation'') else None)\<rparr>"

text \<open>The same as \<open>world0\<close>, but every connection after the first is refused.\<close>

definition world_tgt_down :: world where
  "world_tgt_down = (world0 rows3)\<lparr>connect_err :=
     (\<lambda>a. if host a = PStr ''tgt'' then Some (DbError ''connection refused'') else None)\<rparr>"

definition params_tgt_down :: params where
  "params_tgt_down = (params0 2)\<lparr>target_conf := conf0(''host'' \<mapsto> PStr ''tgt'')\<rparr>"

text \<open>A source table of \<open>n\<close> rows \<open>(i, 'row')\<close>.\<close>

definition rows_n :: "nat \<Rightarrow> row list" where
  "rows_n n = map (\<lambda>i. [PInt (int i), PStr ''row'']) [1 ..< Suc n]"

text \<open>The same as \<open>world0\<close>, but the second \<^verbatim>\<open>fetchmany\<close> raises.\<close>

definition world_read_fails :: world where
  "world_read_fails = (world0 rows3)\<lparr>fetch_err :=
     (\<lambda>k. if k = 1 then Some (DbError ''connection lost'') else None)\<rparr>"

text \<open>The same as \<open>world_dup\<close>, but every \<^verbatim>\<open>rollback\<close> raises as well.\<close>

definition world_rollback_fails :: world where
  "world_rollback_fails = world_dup\<lparr>rollback_err :=
     (\<lambda>pd. Some (DbError ''connection lost''))\<rparr>"

text \<open>Arguments naming a source table that the catalog does not know.\<close>

definition params_missing :: params where
  "params_missing = (params0 2)\<lparr>src_table := ''missing''\<rparr>"

section \<open>Properties of the steps\<close>

lemma fetchmany_split: "fetchmany n cur = (rows, rest) \<Longrightarrow> rows @ rest = cur"
  by (auto simp: fetchmany_def split: if_splits)

lemma fetchmany_shrinks: "fetchmany n cur = (rows, rest) \<Longrightarrow> rows \<noteq> [] \<Longrightarrow> length rest < length cur"
  by (auto simp: fetchmany_def split: if_splits)

lemma insert_rows_Inr:
  "insert_rows w sql rows st = Inr st' \<Longrightarrow>
     st' = st\<lparr>events := events st @ map (Execute TgtCur sql) rows, pending := pending st @ rows\<rparr>"
proof (induction rows arbitrary: st)
  case Nil
  then show ?case by simp
next
  case (Cons r rs)
  from Cons.prems have ok: "insert_err w sql r (committed st) (pending st) = None"
    by (simp split: option.splits)
  with Cons.prems have "insert_rows w sql rs
      ((emit (Execute TgtCur sql r) st)\<lparr>pending := pending st @ [r]\<rparr>) = Inr st'"
    by simp
  from Cons.IH[OF this] show ?case by (simp add: emit_def)
qed

lemma insert_rows_Inl:
  "insert_rows w sql rows st = Inl (e, st') \<Longrightarrow>
     \<exists>j < length rows. st' = st\<lparr>events := events st @ map (Execute TgtCur sql) (take (Suc j) rows),
        pending := pending st @ take j rows\<rparr>"
proof (induction rows arbitrary: st)
  case Nil
  then show ?case by simp
next
  case (Cons r rs)
  show ?case
  proof (cases "insert_err w sql r (committed st) (pending st)")
    case (Some e')
    with Cons.prems have "st' = st\<lparr>events := events st @ [Execute TgtCur sql r]\<rparr>"
      by (simp add: emit_def)
    then show ?thesis by (intro exI[of _ 0]) simp
  next
    case None
    with Cons.prems obtain j where "j < length rs"
      and "st' = ((emit (Execute TgtCur sql r) st)\<lparr>pending := pending st @ [r]\<rparr>)
         \<lparr>events := events ((emit (Execute TgtCur sql r) st)\<lparr>pending := pending st @ [r]\<rparr>) @ map (Execute TgtCur sql) (take (Suc j) rs),
          pending := pending ((emit (Execute TgtCur sql r) st)\<lparr>pending := pending st @ [r]\<rparr>) @ take j rs\<rparr>"
      using Cons.IH by fastforce
    then show ?thesis by (intro exI[of _ "Suc j"]) (simp add: emit_def)
  qed
qed

lemma handle_chunk_cases:
  obtains
    (committed) "handle_chunk w sql k tot rows st =
        Inr (tot + length rows,
             st\<lparr>events := events st @ map (Execute TgtCur sql) rows @ [Commit, LogChunkCommit k (tot + length rows)],
                committed := committed st @ pending st @ rows, pending := []\<rparr>)"
  | (rolled_back) e j c where "j \<le> length rows" "c = [] \<or> (c = [Commit] \<and> j = length rows)"
      "handle_chunk w sql k tot rows st =
        Inr (tot, st\<lparr>events := events st @ map (Execute TgtCur sql) (take j rows) @ c @ [Rollback, LogChunkError k e],
                pending := []\<rparr>)"
  | (raised) e j c pd where "j \<le> length rows" "c = [] \<or> (c = [Commit] \<and> j = length rows)"
      "handle_chunk w sql k tot rows st =
        Inl (e, st\<lparr>events := events st @ map (Execute TgtCur sql) (take j rows) @ c @ [Rollback],
                pending := pd\<rparr>)"
proof (cases "insert_rows w sql rows st")
  case (Inr st1)
  note st1 = insert_rows_Inr[OF Inr]
  show ?thesis
  proof (cases "commit_err w (committed st1) (pending st1)")
    case None
    then show ?thesis using Inr st1
      by (intro committed) (simp add: handle_chunk_def write_chunk_def commit_def emit_def)
  next
    case (Some e)
    show ?thesis
    proof (cases "rollback_err w (pending st1)")
      case None
      then show ?thesis using Inr st1 Some
        by (intro rolled_back[of "length rows" "[Commit]" e])
           (simp_all add: handle_chunk_def write_chunk_def commit_def rollback_def emit_def)
    next
      case (Some e')
      then show ?thesis using Inr st1 \<open>commit_err w (committed st1) (pending st1) = Some e\<close>
        by (intro raised[of "length rows" "[Commit]" e' "pending st @ rows"])
           (simp_all add: handle_chunk_def write_chunk_def commit_def rollback_def emit_def)
    qed
  qed
next
  case (Inl x)
  obtain e st1 where x: "x = (e, st1)" by (cases x)
  from insert_rows_Inl[OF Inl[unfolded x]] obtain j where j: "j < length rows"
    and st1: "st1 = st\<lparr>events := events st @ map (Execute TgtCur sql) (take (Suc j) rows),
        pending := pending st @ take j rows\<rparr>" by blast
  show ?thesis
  proof (cases "rollback_err w (pending st1)")
    case None
    then show ?thesis using Inl x st1 j
      by (intro rolled_back[of "Suc j" "[]" e])
         (simp_all add: handle_chunk_def write_chunk_def rollback_def emit_def)
  next
    case (Some e')
    then show ?thesis using Inl x st1 j
      by (intro raised[of "Suc j" "[]" e' "pending st @ take j rows"])
         (simp_all add: handle_chunk_def write_chunk_def rollback_def emit_def)
  qed
qed

lemma transfer_loop_rule:
  assumes inv: "I cur k tot st"
    and fetch_raises: "\<And>cur k tot st e. I cur k tot st \<Longrightarrow> fetch_err w k = Some e \<Longrightarrow>
          Q (Inl (e, emit (Fetchmany (chunk_size p)) st))"
    and exhausted: "\<And>cur k tot st rest. I cur k tot st \<Longrightarrow> fetch_err w k = None \<Longrightarrow>
          fetchmany (chunk_size p) cur = ([], rest) \<Longrightarrow>
          Q (Inr (tot, emit (Fetchmany (chunk_size p)) st))"
    and chunk: "\<And>cur k tot st rows rest. I cur k tot st \<Longrightarrow> fetch_err w k = None \<Longrightarrow>
          fetchmany (chunk_size p) cur = (rows, rest) \<Longrightarrow> rows \<noteq> [] \<Longrightarrow>
          (case handle_chunk w (insert_sql (tgt_schema p) (tgt_table p) cs ph) (k + 1) tot rows
                  (emit (LogChunkPrepare (k + 1) (length rows)) (emit (Fetchmany (chunk_size p)) st)) of
             Inl x \<Rightarrow> Q (Inl x)
           | Inr (tot', st') \<Rightarrow> I rest (k + 1) tot' st')"
  shows "\<exists>r. transfer_loop w p cs ph cur k tot st = Some r \<and> Q r"
  using inv
proof (induction cur arbitrary: k tot st rule: length_induct)
  case (1 cur)
  show ?case
  proof (cases "fetch_err w k")
    case (Some e)
    then show ?thesis using fetch_raises[OF "1.prems" Some]
      by (subst transfer_loop.simps) simp
  next
    case None
    obtain rows rest where f: "fetchmany (chunk_size p) cur = (rows, rest)"
      by (cases "fetchmany (chunk_size p) cur")
    show ?thesis
    proof (cases "rows = []")
      case True
      then show ?thesis using exhausted[OF "1.prems" None] f None
        by (subst transfer_loop.simps) simp
    next
      case False
      let ?h = "handle_chunk w (insert_sql (tgt_schema p) (tgt_table p) cs ph) (k + 1) tot rows
                  (emit (LogChunkPrepare (k + 1) (length rows)) (emit (Fetchmany (chunk_size p)) st))"
      note c = chunk[OF "1.prems" None f False]
      show ?thesis
      proof (cases ?h)
        case (Inl x)
        then show ?thesis using c f None False
          by (subst transfer_loop.simps) simp
      next
        case (Inr y)
        obtain tot' st' where y: "y = (tot', st')" by (cases y)
        from c Inr y have "I rest (k + 1) tot' st'" by simp
        moreover have "length rest < length cur" using fetchmany_shrinks[OF f False] .
        ultimately have "\<exists>r. transfer_loop w p cs ph rest (k + 1) tot' st' = Some r \<and> Q r"
          using "1.IH" by blast
        then show ?thesis using f None False Inr y
          by (subst transfer_loop.simps) simp
      qed
    qed
  qed
qed

lemma fetches_append: "fetches (xs @ ys) = fetches xs + fetches ys"
  by (simp add: fetches_def)

lemma fetches_Execute: "fetches (map (Execute h sql) rs) = 0"
  by (induction rs) (simp_all add: fetches_def)

lemma fetches_take_Execute: "fetches (map (Execute h sql) (take j rs)) = 0"
  by (rule fetches_Execute)

lemma handle_chunk_fetches:
  "fetches (events (final_state (handle_chunk w sql k tot rows st))) = fetches (events st)"
  by (rule handle_chunk_cases[of w sql k tot rows st])
     (auto simp: fetches_append fetches_Execute fetches_take_Execute, simp_all add: fetches_def)

lemma batches_attempted_append: "batches_attempted (xs @ ys) = batches_attempted xs @ batches_attempted ys"
  by (simp add: batches_attempted_def)

lemma chunk_results_append: "chunk_results (xs @ ys) = chunk_results xs @ chunk_results ys"
  by (simp add: chunk_results_def)

lemma reported_totals_append: "reported_totals (xs @ ys) = reported_totals xs @ reported_totals ys"
  by (simp add: reported_totals_def)

lemma commits_append: "commits (xs @ ys) = commits xs + commits ys"
  by (simp add: commits_def)

lemma rollbacks_append: "rollbacks (xs @ ys) = rollbacks xs + rollbacks ys"
  by (simp add: rollbacks_def)

lemmas reading_append = batches_attempted_append chunk_results_append reported_totals_append
  commits_append rollbacks_append fetches_append

lemma no_chunk_events_Nil: "no_chunk_events []"
  by (simp add: no_chunk_events_def batches_attempted_def chunk_results_def reported_totals_def
      commits_def rollbacks_def)

lemma no_chunk_events_append:
  "no_chunk_events xs \<Longrightarrow> no_chunk_events ys \<Longrightarrow> no_chunk_events (xs @ ys)"
  by (simp add: no_chunk_events_def reading_append)

lemma no_chunk_events_Execute: "no_chunk_events (map (Execute h sql) rs)"
  by (induction rs)
     (simp_all add: no_chunk_events_def batches_attempted_def chunk_results_def reported_totals_def
        commits_def rollbacks_def)

lemma no_chunk_events_single:
  "prepared ev = [] \<Longrightarrow> result_of ev = [] \<Longrightarrow> total_of ev = [] \<Longrightarrow> ev \<noteq> Commit \<Longrightarrow>
   ev \<noteq> Rollback \<Longrightarrow> no_chunk_events [ev]"
  by (simp add: no_chunk_events_def batches_attempted_def chunk_results_def reported_totals_def
      commits_def rollbacks_def)

lemma quiet_refl: "quiet_step st st"
  unfolding quiet_step_def
  by (intro exI[of _ "[]"] exI[of _ "opened st"]) (simp add: no_chunk_events_Nil)

lemma quiet_trans: "quiet_step st st1 \<Longrightarrow> quiet_step st1 st2 \<Longrightarrow> quiet_step st st2"
proof -
  assume "quiet_step st st1" "quiet_step st1 st2"
  then obtain evs ops evs' ops' where
    a: "st1 = st\<lparr>events := events st @ evs, opened := ops\<rparr>" "no_chunk_events evs"
    and b: "st2 = st1\<lparr>events := events st1 @ evs', opened := ops'\<rparr>" "no_chunk_events evs'"
    unfolding quiet_step_def by blast
  then have "st2 = st\<lparr>events := events st @ (evs @ evs'), opened := ops'\<rparr>" by simp
  moreover have "no_chunk_events (evs @ evs')" using a b by (simp add: no_chunk_events_append)
  ultimately show ?thesis unfolding quiet_step_def by blast
qed

lemma quiet_emit:
  "prepared ev = [] \<Longrightarrow> result_of ev = [] \<Longrightarrow> total_of ev = [] \<Longrightarrow> ev \<noteq> Commit \<Longrightarrow>
   ev \<noteq> Rollback \<Longrightarrow> quiet_step st (emit ev st)"
  unfolding quiet_step_def
  by (intro exI[of _ "[ev]"] exI[of _ "opened st"]) (simp add: emit_def no_chunk_events_single)

lemma quiet_opened: "quiet_step st (st\<lparr>opened := ops\<rparr>)"
  unfolding quiet_step_def
  by (intro exI[of _ "[]"] exI[of _ ops]) (simp add: no_chunk_events_Nil)

lemma quiet_target: "quiet_step st st' \<Longrightarrow> committed st' = committed st \<and> pending st' = pending st"
  unfolding quiet_step_def by auto

lemma quiet_readings:
  "quiet_step st st' \<Longrightarrow>
     batches_attempted (events st') = batches_attempted (events st) \<and>
     chunk_results (events st') = chunk_results (events st) \<and>
     reported_totals (events st') = reported_totals (events st) \<and>
     commits (events st') = commits (events st) \<and>
     rollbacks (events st') = rollbacks (events st)"
  unfolding quiet_step_def no_chunk_events_def by (auto simp: reading_append)

lemma get_connection_quiet:
  assumes "get_connection w c st = Inl (e, st') \<or> get_connection w c st = Inr st'"
  shows "quiet_step st st'"
proof -
  from assms consider "st' = st" | a where "st' = emit (Connect a) st"
    by (auto simp: get_connection_def split: sum.splits option.splits)
  then show ?thesis by cases (simp_all add: quiet_refl quiet_emit)
qed

lemma cursor_quiet:
  assumes "cursor w c h st = Inl (e, st') \<or> cursor w c h st = Inr st'"
  shows "quiet_step st st'"
proof -
  have a: "quiet_step st (emit (Cursor c) st)" by (simp add: quiet_emit)
  from assms have "st' = emit (Cursor c) st \<or> st' = (emit (Cursor c) st)\<lparr>opened := opened (emit (Cursor c) st) @ [h]\<rparr>"
    by (auto simp: cursor_def mark_open_def split: option.splits)
  then show ?thesis using a quiet_trans[OF a quiet_opened] by auto
qed

lemma mark_open_quiet: "quiet_step st (mark_open h st)"
  by (simp add: mark_open_def quiet_opened)

lemma open_handles_quiet:
  assumes "open_handles w p st = Inl (e, st') \<or> open_handles w p st = Inr st'"
  shows "quiet_step st st'"
proof (cases "get_connection w (source_conf p) st")
  case (Inl x)
  then show ?thesis using assms get_connection_quiet[of w "source_conf p" st e st']
    by (auto simp: open_handles_def)
next
  case (Inr st1)
  have q1: "quiet_step st (mark_open SrcConn st1)"
    using get_connection_quiet[of w "source_conf p" st e st1] Inr mark_open_quiet quiet_trans by blast
  show ?thesis
  proof (cases "get_connection w (target_conf p) (mark_open SrcConn st1)")
    case (Inl x)
    then show ?thesis using assms Inr q1
        get_connection_quiet[of w "target_conf p" "mark_open SrcConn st1" e st'] quiet_trans
      by (auto simp: open_handles_def)
  next
    case st2: (Inr st2)
    have q2: "quiet_step st (mark_open TgtConn st2)"
      using get_connection_quiet[of w "target_conf p" "mark_open SrcConn st1" e st2] st2 q1
        mark_open_quiet quiet_trans by blast
    show ?thesis
    proof (cases "cursor w SrcConn SrcCur (mark_open TgtConn st2)")
      case (Inl x)
      then show ?thesis using assms Inr st2 q2
          cursor_quiet[of w SrcConn SrcCur "mark_open TgtConn st2" e st'] quiet_trans
        by (auto simp: open_handles_def)
    next
      case st3: (Inr st3)
      have q3: "quiet_step st st3"
        using cursor_quiet[of w SrcConn SrcCur "mark_open TgtConn st2" e st3] st3 q2 quiet_trans
        by blast
      show ?thesis using assms Inr st2 st3 q3 cursor_quiet[of w TgtConn TgtCur st3 e st'] quiet_trans
        by (auto simp: open_handles_def)
    qed
  qed
qed

lemma introspect_quiet:
  assumes "introspect w s t st = Inl (e, st') \<or> introspect w s t st = Inr (cols, st')"
  shows "quiet_step st st'"
proof -
  let ?st1 = "emit (Execute SrcCur catalog_sql [PStr s, PStr t]) st"
  have a: "quiet_step st ?st1" by (simp add: quiet_emit)
  have b: "quiet_step st (emit Fetchall ?st1)"
    by (rule quiet_trans[OF a]) (simp add: quiet_emit)
  from assms have "st' = ?st1 \<or> st' = emit Fetchall ?st1"
    by (auto simp: introspect_def Let_def split: option.splits)
  with a b show ?thesis by auto
qed

lemma execute_select_quiet:
  assumes "execute_select w sql st = Inl (e, st') \<or> execute_select w sql st = Inr (cur, st')"
  shows "quiet_step st st'"
proof -
  from assms have "st' = emit (Execute SrcCur sql []) st"
    by (auto simp: execute_select_def split: sum.splits)
  then show ?thesis by (simp add: quiet_emit)
qed

lemma close_quiet:
  assumes "close w h st = Inl (e, st') \<or> close w h st = Inr st'"
  shows "quiet_step st st'"
proof -
  have a: "quiet_step st (emit (Close h) st)" by (simp add: quiet_emit)
  from assms have "st' = emit (Close h) st \<or> st' = (emit (Close h) st)\<lparr>opened := removeAll h (opened st)\<rparr>"
    by (auto simp: close_def split: option.splits)
  then show ?thesis using a quiet_trans[OF a quiet_opened] by auto
qed

lemma close_all_quiet:
  assumes "close_all w st = Inl (e, st') \<or> close_all w st = Inr st'"
  shows "quiet_step st st'"
proof (cases "close w SrcCur st")
  case (Inl x)
  then show ?thesis using assms close_quiet[of w SrcCur st e st'] by (auto simp: close_all_def)
next
  case (Inr st1)
  have q1: "quiet_step st st1" using close_quiet[of w SrcCur st e st1] Inr by blast
  show ?thesis
  proof (cases "close w SrcConn st1")
    case (Inl x)
    then show ?thesis using assms Inr q1 close_quiet[of w SrcConn st1 e st'] quiet_trans
      by (auto simp: close_all_def)
  next
    case st2: (Inr st2)
    have q2: "quiet_step st st2" using close_quiet[of w SrcConn st1 e st2] st2 q1 quiet_trans by blast
    show ?thesis
    proof (cases "close w TgtCur st2")
      case (Inl x)
      then show ?thesis using assms Inr st2 q2 close_quiet[of w TgtCur st2 e st'] quiet_trans
        by (auto simp: close_all_def)
    next
      case st3: (Inr st3)
      have q3: "quiet_step st st3" using close_quiet[of w TgtCur st2 e st3] st3 q2 quiet_trans by blast
      show ?thesis using assms Inr st2 st3 q3 close_quiet[of w TgtConn st3 e st'] quiet_trans
        by (auto simp: close_all_def)
    qed
  qed
qed

lemma open_handles_raises_iff:
  "(\<exists>x. open_handles w p st = Inl x) \<longleftrightarrow>
     \<not> (connects w (source_conf p) \<and> connects w (target_conf p) \<and>
        cursor_err w SrcConn = None \<and> cursor_err w TgtConn = None)"
  by (auto simp: open_handles_def get_connection_def cursor_def connects_def
      split: sum.splits option.splits)

lemma introspect_raises_iff:
  "(\<exists>x. introspect w s t st = Inl x) \<longleftrightarrow> \<not> (catalog_err w = None \<and> fetchall_err w = None)"
  by (auto simp: introspect_def Let_def split: option.splits)

lemma introspect_columns:
  "introspect w s t st = Inr (cols, st') \<Longrightarrow> cols = columns_query (catalog w) s t"
  by (auto simp: introspect_def Let_def split: option.splits)

lemma execute_select_answer:
  "execute_select w sql st = Inl (e, st') \<Longrightarrow> select_answer w sql = Inl e"
  "execute_select w sql st = Inr (cur, st') \<Longrightarrow> select_answer w sql = Inr cur"
  by (auto simp: execute_select_def split: sum.splits)

lemma migrate_body_cases:
  obtains
    (setup_raised) e st1 where "migrate_body w p st = Some (Inl (e, st1))" "quiet_step st st1"
      "\<not> setup_ok w p \<or> source_answer w p = Inl e"
  | (streaming) cur st3 where "quiet_step st st3" "setup_ok w p" "source_answer w p = Inr cur"
      "migrate_body w p st =
        (case transfer_loop w p
                (join '', '' (columns_query (catalog w) (src_schema p) (src_table p)))
                (join '', '' (replicate (length (columns_query (catalog w) (src_schema p) (src_table p))) ''%s''))
                cur 0 0 st3 of
           None \<Rightarrow> None
         | Some (Inl x) \<Rightarrow> Some (Inl x)
         | Some (Inr (tot, st4)) \<Rightarrow>
             Some (close_all w
               (emit (LogTotal tot (src_schema p) (src_table p) (tgt_schema p) (tgt_table p)) st4)))"
proof (cases "open_handles w p st")
  case (Inl x)
  obtain e st1 where x: "x = (e, st1)" by (cases x)
  have "\<not> setup_ok w p" using open_handles_raises_iff[of w p st] Inl by (auto simp: setup_ok_def)
  moreover have "quiet_step st st1" using open_handles_quiet[of w p st e st1] Inl x by simp
  ultimately show ?thesis using Inl x by (intro setup_raised[of e st1]) (simp_all add: migrate_body_def)
next
  case (Inr st1)
  have q1: "quiet_step st st1" using open_handles_quiet[of w p st undefined st1] Inr by simp
  have o1: "connects w (source_conf p) \<and> connects w (target_conf p) \<and>
        cursor_err w SrcConn = None \<and> cursor_err w TgtConn = None"
    using open_handles_raises_iff[of w p st] Inr by auto
  show ?thesis
  proof (cases "introspect w (src_schema p) (src_table p) st1")
    case (Inl x)
    obtain e st2 where x: "x = (e, st2)" by (cases x)
    have "\<not> setup_ok w p"
      using introspect_raises_iff[of w "src_schema p" "src_table p" st1] Inl by (auto simp: setup_ok_def)
    moreover have "quiet_step st st2"
      using introspect_quiet[of w "src_schema p" "src_table p" st1 e st2] Inl x q1 quiet_trans by blast
    ultimately show ?thesis using Inr Inl x
      by (intro setup_raised[of e st2]) (simp_all add: migrate_body_def)
  next
    case i: (Inr y)
    obtain cols st2 where y: "y = (cols, st2)" by (cases y)
    have cols: "cols = columns_query (catalog w) (src_schema p) (src_table p)"
      using introspect_columns i y by blast
    have q2: "quiet_step st st2"
      using introspect_quiet[where w = w and st = st1 and st' = st2 and cols = cols] i y q1 quiet_trans
      by blast
    have ok: "setup_ok w p"
      using o1 introspect_raises_iff[of w "src_schema p" "src_table p" st1] i
      by (auto simp: setup_ok_def)
    let ?sql = "select_sql (join '', '' cols) (src_schema p) (src_table p)"
    show ?thesis
    proof (cases "execute_select w ?sql st2")
      case (Inl x)
      obtain e st3 where x: "x = (e, st3)" by (cases x)
      have "source_answer w p = Inl e"
        using execute_select_answer(1)[of w ?sql st2 e st3] Inl x cols by (simp add: source_answer_def)
      moreover have "quiet_step st st3"
        using execute_select_quiet[of w ?sql st2 e st3] Inl x q2 quiet_trans by blast
      ultimately show ?thesis using Inr i y Inl x
        by (intro setup_raised[of e st3]) (simp_all add: migrate_body_def)
    next
      case s: (Inr z)
      obtain cur st3 where z: "z = (cur, st3)" by (cases z)
      have "source_answer w p = Inr cur"
        using execute_select_answer(2)[of w ?sql st2 cur st3] s z cols by (simp add: source_answer_def)
      moreover have "quiet_step st st3"
        using execute_select_quiet[where w = w and st = st2 and st' = st3 and cur = cur] s z q2 quiet_trans by blast
      ultimately show ?thesis using Inr i y s z ok cols
        by (intro streaming[of st3 cur]) (simp_all add: migrate_body_def)
    qed
  qed
qed

lemma readings_Execute:
  "batches_attempted (map (Execute h sql) rs) = []"
  "chunk_results (map (Execute h sql) rs) = []"
  "reported_totals (map (Execute h sql) rs) = []"
  "commits (map (Execute h sql) rs) = 0"
  "rollbacks (map (Execute h sql) rs) = 0"
  using no_chunk_events_Execute[of h sql rs] by (simp_all add: no_chunk_events_def)

lemma reported_totals_simps:
  "reported_totals [] = []"
  "reported_totals (ev # evs) = total_of ev @ reported_totals evs"
  by (simp_all add: reported_totals_def)

lemma handle_chunk_reported_totals:
  "reported_totals (events (final_state (handle_chunk w sql k tot rows st))) = reported_totals (events st)"
  by (rule handle_chunk_cases[of w sql k tot rows st])
     (auto simp: reported_totals_append readings_Execute reported_totals_simps)

lemma handle_chunk_opened:
  "opened (final_state (handle_chunk w sql k tot rows st)) = opened st"
  by (rule handle_chunk_cases[of w sql k tot rows st]) auto

lemma handle_chunk_target:
  assumes "pending st = []"
  shows "(\<exists>e st'. handle_chunk w sql k tot rows st = Inl (e, st') \<and> committed st' = committed st) \<or>
     (\<exists>st'. handle_chunk w sql k tot rows st = Inr (tot, st') \<and> committed st' = committed st \<and>
        pending st' = []) \<or>
     (\<exists>st'. handle_chunk w sql k tot rows st = Inr (tot + length rows, st') \<and>
        committed st' = committed st @ rows \<and> pending st' = [])"
  using assms by (rule_tac handle_chunk_cases[of w sql k tot rows st]) auto

lemma loop_counts:
  assumes "pending st = []" "committed st = T0 @ new0" "tot = length new0"
  shows "\<exists>r. transfer_loop w p cs ph cur k tot st = Some r \<and>
     (\<exists>new. committed (final_state r) = T0 @ new \<and>
        (\<forall>tot' st'. r = Inr (tot', st') \<longrightarrow> tot' = length new \<and> pending st' = [])) \<and>
     reported_totals (events (final_state r)) = reported_totals (events st) \<and>
     opened (final_state r) = opened st"
proof -
  let ?I = "\<lambda>(cur'::row list) (k'::nat) (tot'::nat) (st'::state).
      pending st' = [] \<and> (\<exists>new. committed st' = T0 @ new \<and> tot' = length new) \<and>
      reported_totals (events st') = reported_totals (events st) \<and> opened st' = opened st"
  let ?Q = "\<lambda>r::(exn \<times> state) + (nat \<times> state).
      (\<exists>new. committed (final_state r) = T0 @ new \<and>
        (\<forall>tot' st'. r = Inr (tot', st') \<longrightarrow> tot' = length new \<and> pending st' = [])) \<and>
      reported_totals (events (final_state r)) = reported_totals (events st) \<and>
      opened (final_state r) = opened st"
  show ?thesis
  proof (rule transfer_loop_rule[where I = ?I and Q = ?Q])
    show "?I cur k tot st" using assms by simp
  next
    fix cur' k' tot' st' e
    assume "?I cur' k' tot' st'"
    then show "?Q (Inl (e, emit (Fetchmany (chunk_size p)) st'))"
      by (auto simp: emit_def reported_totals_def)
  next
    fix cur' k' tot' st' rest
    assume "?I cur' k' tot' st'"
    then show "?Q (Inr (tot', emit (Fetchmany (chunk_size p)) st'))"
      by (auto simp: emit_def reported_totals_def)
  next
    fix cur' k' tot' st' and rows rest :: "row list"
    assume i: "?I cur' k' tot' st'"
    let ?st = "emit (LogChunkPrepare (k' + 1) (length rows)) (emit (Fetchmany (chunk_size p)) st')"
    let ?sql = "insert_sql (tgt_schema p) (tgt_table p) cs ph"
    let ?h = "handle_chunk w ?sql (k' + 1) tot' rows ?st"
    from i obtain new where new: "committed st' = T0 @ new" "tot' = length new" by blast
    have st: "pending ?st = []" "committed ?st = T0 @ new" "opened ?st = opened st"
      "reported_totals (events ?st) = reported_totals (events st)"
      using i new by (simp_all add: emit_def reported_totals_def)
    have rt: "reported_totals (events (final_state ?h)) = reported_totals (events st)"
      using handle_chunk_reported_totals[of w ?sql "k' + 1" tot' rows ?st] st by simp
    have op: "opened (final_state ?h) = opened st"
      using handle_chunk_opened[of w ?sql "k' + 1" tot' rows ?st] st by simp
    from handle_chunk_target[OF st(1), of w ?sql "k' + 1" tot' rows]
    show "case ?h of Inl x \<Rightarrow> ?Q (Inl x) | Inr (tot'', st'') \<Rightarrow> ?I rest (k' + 1) tot'' st''"
    proof (elim disjE exE conjE)
      fix e st''
      assume "?h = Inl (e, st'')" "committed st'' = committed ?st"
      then show ?thesis using rt op st by auto
    next
      fix st''
      assume "?h = Inr (tot', st'')" "committed st'' = committed ?st" "pending st'' = []"
      then show ?thesis using rt op st new by auto
    next
      fix st''
      assume "?h = Inr (tot' + length rows, st'')" "committed st'' = committed ?st @ rows" "pending st'' = []"
      then show ?thesis using rt op st new by auto
    qed
  qed
qed

lemma start_state:
  "pending (emit (LogStart a b c d n) (init_state T0)) = []"
  "committed (emit (LogStart a b c d n) (init_state T0)) = T0"
  "opened (emit (LogStart a b c d n) (init_state T0)) = []"
  "events (emit (LogStart a b c d n) (init_state T0)) = [LogStart a b c d n]"
  by (simp_all add: emit_def init_state_def)

lemmas run_defs = migrate_table_def migrate_body_def open_handles_def get_connection_def conn_args_of_def
  cursor_def mark_open_def emit_def init_state_def introspect_def columns_query_def in_table_def
  execute_select_def select_sql_def insert_sql_def dquote_def fetchmany_def commit_def rollback_def
  write_chunk_def handle_chunk_def close_def close_all_def

lemmas world_defs = world_dup_def world0_def params0_def conf0_def catalog0_def rows3_def
  world_tgt_down_def params_tgt_down_def world_read_fails_def params_missing_def
  world_rollback_fails_def

section \<open>Termination of the transfer loop\<close>

text \<open>
  Claim C10. For every source cursor holding finitely many rows (any list \<open>cur\<close>), in any
  environment, for any chunk size and from any state, the transfer loop returns: it ends
  in a result, having called \<^verbatim>\<open>fetchmany\<close> at most once per row left in the cursor and
  once more. And it leaves at the first fetch that returns an empty batch: when that fetch
  does not raise, the loop returns the total it was entered with.
\<close>

theorem transfer_loop_terminates:
  "(\<exists>r. transfer_loop w p cs ph cur k tot st = Some r \<and>
        fetches (events (final_state r)) \<le> fetches (events st) + length cur + 1) \<and>
   (fetch_err w k = None \<and> fst (fetchmany (chunk_size p) cur) = [] \<longrightarrow>
      transfer_loop w p cs ph cur k tot st = Some (Inr (tot, emit (Fetchmany (chunk_size p)) st)))"
proof
  let ?I = "\<lambda>(cur'::row list) (k'::nat) (tot'::nat) (st'::state). fetches (events st') + length cur' \<le> fetches (events st) + length cur"
  let ?Q = "\<lambda>r::(exn \<times> state) + (nat \<times> state).
      fetches (events (final_state r)) \<le> fetches (events st) + length cur + 1"
  show "\<exists>r. transfer_loop w p cs ph cur k tot st = Some r \<and> ?Q r"
  proof (rule transfer_loop_rule[where I = ?I and Q = ?Q])
    show "?I cur k tot st" by simp
  next
    fix cur' k' tot' st' e
    assume "?I cur' k' tot' st'"
    then show "?Q (Inl (e, emit (Fetchmany (chunk_size p)) st'))"
      by (simp add: emit_def fetches_def)
  next
    fix cur' k' tot' st' rest
    assume "?I cur' k' tot' st'"
    then show "?Q (Inr (tot', emit (Fetchmany (chunk_size p)) st'))"
      by (simp add: emit_def fetches_def)
  next
    fix cur' k' tot' st' rows rest
    assume i: "?I cur' k' tot' st'" and f: "fetchmany (chunk_size p) cur' = (rows, rest)"
      and ne: "rows \<noteq> []"
    let ?st = "emit (LogChunkPrepare (k' + 1) (length rows)) (emit (Fetchmany (chunk_size p)) st')"
    let ?h = "handle_chunk w (insert_sql (tgt_schema p) (tgt_table p) cs ph) (k' + 1) tot' rows ?st"
    have "fetches (events (final_state ?h)) = fetches (events ?st)"
      by (rule handle_chunk_fetches)
    also have "\<dots> = fetches (events st') + 1"
      by (simp add: emit_def fetches_def)
    finally have h: "fetches (events (final_state ?h)) = fetches (events st') + 1" .
    have less: "length rest < length cur'" using fetchmany_shrinks[OF f ne] .
    show "case ?h of Inl x \<Rightarrow> ?Q (Inl x) | Inr (tot'', st'') \<Rightarrow> ?I rest (k' + 1) tot'' st''"
    proof (cases ?h)
      case (Inl x)
      then show ?thesis using h i by simp
    next
      case (Inr y)
      obtain tot'' st'' where "y = (tot'', st'')" by (cases y)
      then show ?thesis using Inr h i less by simp
    qed
  qed
next
  show "fetch_err w k = None \<and> fst (fetchmany (chunk_size p) cur) = [] \<longrightarrow>
      transfer_loop w p cs ph cur k tot st = Some (Inr (tot, emit (Fetchmany (chunk_size p)) st))"
    by (subst transfer_loop.simps) (auto split: prod.splits)
qed

theorem transfer_loop_terminates_witness:
  "(\<exists>r. transfer_loop world_dup (params0 2) ''id, name'' ''%s, %s'' rows3 0 0 (init_state []) = Some r \<and>
        fetches (events (final_state r)) \<le> 4) \<and>
   fetch_err world_dup 2 = None \<and> fst (fetchmany (chunk_size (params0 2)) []) = [] \<and>
   transfer_loop world_dup (params0 2) ''id, name'' ''%s, %s'' [] 2 1 (init_state []) =
     Some (Inr (1, emit (Fetchmany (chunk_size (params0 2))) (init_state [])))"
proof -
  have a: "fetch_err world_dup 2 = None \<and> fst (fetchmany (chunk_size (params0 2)) []) = []"
    by (simp add: world_dup_def world0_def fetchmany_def)
  from transfer_loop_terminates[of world_dup "params0 2" "''id, name''" "''%s, %s''" rows3 0 0 "init_state []"]
  obtain r where r: "transfer_loop world_dup (params0 2) ''id, name'' ''%s, %s'' rows3 0 0 (init_state []) = Some r"
    and le: "fetches (events (final_state r)) \<le> fetches (events (init_state [])) + length rows3 + 1"
    by blast
  have "fetches (events (init_state [])) + length rows3 + 1 = 4"
    by (simp add: rows3_def init_state_def fetches_def)
  with r le have b: "\<exists>r. transfer_loop world_dup (params0 2) ''id, name'' ''%s, %s'' rows3 0 0 (init_state []) = Some r \<and>
        fetches (events (final_state r)) \<le> 4"
    by auto
  have c: "transfer_loop world_dup (params0 2) ''id, name'' ''%s, %s'' [] 2 1 (init_state []) =
     Some (Inr (1, emit (Fetchmany (chunk_size (params0 2))) (init_state [])))"
    using a transfer_loop_terminates[where w = world_dup and k = 2 and p = "params0 2" and cur = "[]"
      and cs = "''id, name''" and ph = "''%s, %s''" and tot = 1 and st = "init_state []"]
    by blast
  show ?thesis using a b c by blast
qed

section \<open>The reported total\<close>

text \<open>
  Claim C9. In every run of \<^verbatim>\<open>migrate_table\<close>, in any environment, the target holds at
  the end what it held at the start followed by the rows the run committed, and every
  total that the final record of line 63 reports is the number of those rows: a chunk that
  was rolled back adds nothing to it. A run that returns reports exactly one such total.
\<close>

theorem reported_total_counts_committed_rows:
  assumes "migrate_table w p T0 = Some (out, st)"
  shows "\<exists>new. committed st = T0 @ new \<and>
     (\<forall>n \<in> set (reported_totals (events st)). n = length new) \<and>
     (out = Returned \<longrightarrow> reported_totals (events st) = [length new])"
proof -
  let ?st0 = "emit (LogStart (src_schema p) (src_table p) (tgt_schema p) (tgt_table p) (chunk_size p))
                (init_state T0)"
  have rt0: "reported_totals (events ?st0) = []"
    by (simp add: start_state reported_totals_simps)
  show ?thesis
  proof (cases rule: migrate_body_cases[of w p ?st0])
    case (setup_raised e st1)
    have "committed st1 = T0" "reported_totals (events st1) = []"
      using quiet_target[OF setup_raised(2)] quiet_readings[OF setup_raised(2)] rt0
      by (simp_all add: start_state)
    moreover have "out = Exited 1" "st = emit (SysExit 1) (emit (LogFatal e) st1)"
      using assms setup_raised(1) by (simp_all add: migrate_table_def)
    ultimately show ?thesis
      by (intro exI[of _ "[]"]) (simp add: emit_def reported_totals_append reported_totals_simps)
  next
    case (streaming cur st3)
    have st3: "pending st3 = []" "committed st3 = T0 @ []" "reported_totals (events st3) = []"
      using quiet_target[OF streaming(1)] quiet_readings[OF streaming(1)] rt0
      by (simp_all add: start_state)
    let ?cs = "join '', '' (columns_query (catalog w) (src_schema p) (src_table p))"
    let ?ph = "join '', '' (replicate (length (columns_query (catalog w) (src_schema p) (src_table p))) ''%s'')"
    from loop_counts[OF st3(1) st3(2), of 0 w p ?cs ?ph cur 0]
    obtain r new where r: "transfer_loop w p ?cs ?ph cur 0 0 st3 = Some r"
      and new: "committed (final_state r) = T0 @ new"
        "\<And>tot' st'. r = Inr (tot', st') \<Longrightarrow> tot' = length new \<and> pending st' = []"
      and rt: "reported_totals (events (final_state r)) = []"
      using st3(3) by auto
    show ?thesis
    proof (cases r)
      case (Inl x)
      obtain e st4 where x: "x = (e, st4)" by (cases x)
      have "out = Exited 1" "st = emit (SysExit 1) (emit (LogFatal e) st4)"
        using assms streaming(4) r Inl x by (simp_all add: migrate_table_def)
      then show ?thesis using new(1) rt Inl x
        by (intro exI[of _ new]) (simp add: emit_def reported_totals_append reported_totals_simps)
    next
      case (Inr y)
      obtain tot st4 where y: "y = (tot, st4)" by (cases y)
      have tot: "tot = length new" using new(2) Inr y by blast
      let ?st5 = "emit (LogTotal tot (src_schema p) (src_table p) (tgt_schema p) (tgt_table p)) st4"
      have st5: "committed ?st5 = T0 @ new" "reported_totals (events ?st5) = [length new]"
        using new(1) rt Inr y tot by (simp_all add: emit_def reported_totals_append reported_totals_simps)
      have body: "migrate_body w p ?st0 = Some (close_all w ?st5)"
        using streaming(4) r Inr y by simp
      show ?thesis
      proof (cases "close_all w ?st5")
        case c: (Inl z)
        obtain e st6 where z: "z = (e, st6)" by (cases z)
        have q: "quiet_step ?st5 st6" using close_all_quiet[of w ?st5 e st6] c z by simp
        have "out = Exited 1" "st = emit (SysExit 1) (emit (LogFatal e) st6)"
          using assms body c z by (simp_all add: migrate_table_def)
        then show ?thesis using quiet_target[OF q] quiet_readings[OF q] st5
          by (intro exI[of _ new]) (simp add: emit_def reported_totals_append reported_totals_simps)
      next
        case c: (Inr st6)
        have q: "quiet_step ?st5 st6" using close_all_quiet[of w ?st5 undefined st6] c by simp
        have "out = Returned" "st = st6"
          using assms body c by (simp_all add: migrate_table_def)
        then show ?thesis using quiet_target[OF q] quiet_readings[OF q] st5
          by (intro exI[of _ new]) simp
      qed
    qed
  qed
qed

theorem reported_total_counts_committed_rows_witness:
  "\<exists>st. migrate_table world_dup (params0 2) [] = Some (Returned, st) \<and>
        committed st = [[PInt 3, PStr ''c'']] \<and> reported_totals (events st) = [1]"
proof -
  have "\<exists>st. migrate_table world_dup (params0 2) [] = Some (Returned, st) \<and>
      committed st = [[PInt 3, PStr ''c'']]"
    by (simp add: run_defs world_defs transfer_loop.simps Let_def)
  then obtain st where run: "migrate_table world_dup (params0 2) [] = Some (Returned, st)"
    and c: "committed st = [[PInt 3, PStr ''c'']]"
    by blast
  from reported_total_counts_committed_rows[OF run]
  obtain new where n: "committed st = [] @ new"
    and r: "Returned = Returned \<longrightarrow> reported_totals (events st) = [length new]"
    by blast
  from n c have "new = [[PInt 3, PStr ''c'']]" by simp
  with r have "reported_totals (events st) = [1]" by simp
  with run c show ?thesis by blast
qed

lemma commits_simps:
  "commits [] = 0"
  "commits (ev # evs) = (if ev = Commit then 1 else 0) + commits evs"
  by (simp_all add: commits_def)

lemma rollbacks_simps:
  "rollbacks [] = 0"
  "rollbacks (ev # evs) = (if ev = Rollback then 1 else 0) + rollbacks evs"
  by (simp_all add: rollbacks_def)

section \<open>One chunk is written as a unit\<close>

text \<open>
  Claim C2. A chunk is written from a state with no open transaction (\<open>pending st = []\<close>,
  which holds at every entry of the loop body). If the insert of any of its rows raises,
  the next call on the target is the rollback, no commit is issued for the chunk, and the
  committed contents of the target are what they were before the chunk; when the rollback
  does not raise itself, no row is left pending either. In every case the committed contents
  are either unchanged or extended by the whole chunk, and they are extended only when
  every row of the chunk was inserted, the commit following the last insert.
\<close>

theorem chunk_is_all_or_nothing:
  assumes "pending st = []"
  shows
    "(\<forall>e st1. insert_rows w sql rows st = Inl (e, st1) \<longrightarrow>
        committed (final_state (handle_chunk w sql k tot rows st)) = committed st \<and>
        (\<exists>evs. events (final_state (handle_chunk w sql k tot rows st)) = events st1 @ Rollback # evs \<and>
               commits (events st1 @ Rollback # evs) = commits (events st)) \<and>
        (rollback_err w (pending st1) = None \<longrightarrow>
           pending (final_state (handle_chunk w sql k tot rows st)) = [])) \<and>
     (committed (final_state (handle_chunk w sql k tot rows st)) = committed st \<or>
      (committed (final_state (handle_chunk w sql k tot rows st)) = committed st @ rows \<and>
       (\<exists>st1. insert_rows w sql rows st = Inr st1 \<and> pending st1 = rows) \<and>
       events (final_state (handle_chunk w sql k tot rows st)) =
         events st @ map (Execute TgtCur sql) rows @ [Commit, LogChunkCommit k (tot + length rows)]))"
proof (intro conjI allI impI)
  fix e st1
  assume i: "insert_rows w sql rows st = Inl (e, st1)"
  from insert_rows_Inl[OF i] obtain j where j: "j < length rows"
    and st1: "st1 = st\<lparr>events := events st @ map (Execute TgtCur sql) (take (Suc j) rows),
        pending := pending st @ take j rows\<rparr>" by blast
  have c1: "commits (events st1) = commits (events st)"
    using st1 by (simp add: commits_append readings_Execute)
  show "committed (final_state (handle_chunk w sql k tot rows st)) = committed st"
    using i st1 by (simp add: handle_chunk_def write_chunk_def rollback_def emit_def split: option.splits)
  show "\<exists>evs. events (final_state (handle_chunk w sql k tot rows st)) = events st1 @ Rollback # evs \<and>
               commits (events st1 @ Rollback # evs) = commits (events st)"
  proof (cases "rollback_err w (pending st1)")
    case None
    then show ?thesis using i c1
      by (intro exI[of _ "[LogChunkError k e]"])
         (simp add: handle_chunk_def write_chunk_def rollback_def emit_def commits_append commits_simps)
  next
    case (Some e')
    then show ?thesis using i c1
      by (intro exI[of _ "[]"])
         (simp add: handle_chunk_def write_chunk_def rollback_def emit_def commits_append commits_simps)
  qed
  show "pending (final_state (handle_chunk w sql k tot rows st)) = []"
    if "rollback_err w (pending st1) = None"
    using that i by (simp add: handle_chunk_def write_chunk_def rollback_def emit_def)
next
  show "committed (final_state (handle_chunk w sql k tot rows st)) = committed st \<or>
      (committed (final_state (handle_chunk w sql k tot rows st)) = committed st @ rows \<and>
       (\<exists>st1. insert_rows w sql rows st = Inr st1 \<and> pending st1 = rows) \<and>
       events (final_state (handle_chunk w sql k tot rows st)) =
         events st @ map (Execute TgtCur sql) rows @ [Commit, LogChunkCommit k (tot + length rows)])"
  proof (cases "insert_rows w sql rows st")
    case (Inl x)
    obtain e st1 where x: "x = (e, st1)" by (cases x)
    from insert_rows_Inl[OF Inl[unfolded x]] have "committed st1 = committed st" by auto
    then show ?thesis using Inl x
      by (simp add: handle_chunk_def write_chunk_def rollback_def emit_def split: option.splits)
  next
    case (Inr st1)
    note st1 = insert_rows_Inr[OF Inr]
    show ?thesis
    proof (cases "commit_err w (committed st1) (pending st1)")
      case None
      then show ?thesis using Inr st1 assms
        by (simp add: handle_chunk_def write_chunk_def commit_def emit_def)
    next
      case (Some e)
      then show ?thesis using Inr st1
        by (simp add: handle_chunk_def write_chunk_def commit_def rollback_def emit_def split: option.splits)
    qed
  qed
qed

theorem chunk_is_all_or_nothing_witness:
  "pending (init_state []) = [] \<and>
   (\<exists>e st1. insert_rows world_dup (insert_sql ''public'' ''t_copy'' ''id, name'' ''%s, %s'')
        (take 2 rows3) (init_state []) = Inl (e, st1) \<and> rollback_err world_dup (pending st1) = None) \<and>
   committed (final_state (handle_chunk world_dup (insert_sql ''public'' ''t_copy'' ''id, name'' ''%s, %s'')
        1 0 (take 2 rows3) (init_state []))) = [] \<and>
   pending (final_state (handle_chunk world_dup (insert_sql ''public'' ''t_copy'' ''id, name'' ''%s, %s'')
        1 0 (take 2 rows3) (init_state []))) = []"
proof -
  let ?sql = "insert_sql ''public'' ''t_copy'' ''id, name'' ''%s, %s''"
  have p: "pending (init_state []) = []" by (simp add: init_state_def)
  have i: "\<exists>e st1. insert_rows world_dup ?sql (take 2 rows3) (init_state []) = Inl (e, st1) \<and>
      rollback_err world_dup (pending st1) = None"
    by (simp add: world_defs emit_def init_state_def)
  then obtain e st1 where e: "insert_rows world_dup ?sql (take 2 rows3) (init_state []) = Inl (e, st1)"
    and r: "rollback_err world_dup (pending st1) = None" by blast
  from chunk_is_all_or_nothing[OF p, of world_dup ?sql "take 2 rows3" 1 0] e r
  have "committed (final_state (handle_chunk world_dup ?sql 1 0 (take 2 rows3) (init_state []))) =
      committed (init_state [])"
    and "pending (final_state (handle_chunk world_dup ?sql 1 0 (take 2 rows3) (init_state []))) = []"
    by blast+
  then show ?thesis using p i by (simp add: init_state_def)
qed

section \<open>Failure before the first chunk\<close>

text \<open>
  Claim C4. If opening the source connection or the target connection fails (a missing
  configuration key or a refused connection), or the catalog query raises (and likewise
  when a cursor cannot be created or the catalog rows cannot be fetched), then the run
  ends in \<^verbatim>\<open>sys.exit(1)\<close> after logging the error: no chunk was attempted, no commit
  and no rollback was issued, and the target is as it was.
\<close>

theorem setup_failure_is_fatal:
  assumes "\<not> connects w (source_conf p) \<or> \<not> connects w (target_conf p) \<or>
           catalog_err w \<noteq> None \<or> fetchall_err w \<noteq> None \<or>
           cursor_err w SrcConn \<noteq> None \<or> cursor_err w TgtConn \<noteq> None"
  shows "\<exists>st e evs. migrate_table w p T0 = Some (Exited 1, st) \<and> exit_status (Exited 1) = 1 \<and>
           events st = evs @ [LogFatal e, SysExit 1] \<and>
           batches_attempted (events st) = [] \<and> commits (events st) = 0 \<and>
           rollbacks (events st) = 0 \<and> committed st = T0"
proof -
  let ?st0 = "emit (LogStart (src_schema p) (src_table p) (tgt_schema p) (tgt_table p) (chunk_size p))
                (init_state T0)"
  have no: "\<not> setup_ok w p" using assms by (auto simp: setup_ok_def)
  have r0: "batches_attempted (events ?st0) = []" "commits (events ?st0) = 0"
    "rollbacks (events ?st0) = 0"
    by (simp_all add: start_state batches_attempted_def commits_def rollbacks_def)
  show ?thesis
  proof (cases rule: migrate_body_cases[of w p ?st0])
    case (setup_raised e st1)
    have run: "migrate_table w p T0 = Some (Exited 1, emit (SysExit 1) (emit (LogFatal e) st1))"
      using setup_raised(1) by (simp add: migrate_table_def)
    have "committed st1 = T0" "batches_attempted (events st1) = []" "commits (events st1) = 0"
      "rollbacks (events st1) = 0"
      using quiet_target[OF setup_raised(2)] quiet_readings[OF setup_raised(2)] r0
      by (simp_all add: start_state)
    then show ?thesis using run
      by (intro exI[of _ "emit (SysExit 1) (emit (LogFatal e) st1)"] exI[of _ e] exI[of _ "events st1"])
         (simp add: emit_def batches_attempted_def commits_def rollbacks_def)
  next
    case (streaming cur st3)
    then show ?thesis using no by simp
  qed
qed

theorem setup_failure_is_fatal_witness:
  "\<not> connects world_tgt_down (target_conf params_tgt_down) \<and>
   (\<exists>st e evs. migrate_table world_tgt_down params_tgt_down rows3 = Some (Exited 1, st) \<and>
        events st = evs @ [LogFatal e, SysExit 1] \<and>
        batches_attempted (events st) = [] \<and> commits (events st) = 0 \<and> committed st = rows3)"
proof -
  have a: "\<not> connects world_tgt_down (target_conf params_tgt_down)"
    by (simp add: connects_def conn_args_of_def world_defs)
  then have "\<not> connects world_tgt_down (source_conf params_tgt_down) \<or>
      \<not> connects world_tgt_down (target_conf params_tgt_down) \<or>
      catalog_err world_tgt_down \<noteq> None \<or> fetchall_err world_tgt_down \<noteq> None \<or>
      cursor_err world_tgt_down SrcConn \<noteq> None \<or> cursor_err world_tgt_down TgtConn \<noteq> None"
    by blast
  from setup_failure_is_fatal[OF this, of rows3] a show ?thesis by blast
qed

section \<open>Handles on the exit paths\<close>

text \<open>
  Claim C5 says that every handle that was opened is closed on every exit path. The four
  \<^verbatim>\<open>close()\<close> calls of lines 64-67 stand at the end of the \<^verbatim>\<open>try\<close> body only, so
  the handler of lines 68-70 exits with whatever is open. When the target connection is
  refused, the source connection stays open and \<^verbatim>\<open>close\<close> is never called on it; when
  a \<^verbatim>\<open>fetchmany\<close> raises in mid-stream, all four handles stay open.
\<close>

theorem handles_left_open_on_failure:
  "(\<exists>st. migrate_table world_tgt_down params_tgt_down [] = Some (Exited 1, st) \<and>
         opened st = [SrcConn] \<and> Close SrcConn \<notin> set (events st)) \<and>
   (\<exists>st. migrate_table world_read_fails (params0 2) [] = Some (Exited 1, st) \<and>
         opened st = [SrcConn, TgtConn, SrcCur, TgtCur] \<and>
         filter (\<lambda>ev. \<exists>h. ev = Close h) (events st) = [])"
  by (simp add: run_defs world_defs transfer_loop.simps Let_def)

text \<open>On the path that returns, the four handles are closed, in the order of lines 64-67.\<close>

lemma close_all_returns:
  "close_all w st = Inr st' \<Longrightarrow>
     st' = st\<lparr>events := events st @ [Close SrcCur, Close SrcConn, Close TgtCur, Close TgtConn],
        opened := removeAll TgtConn (removeAll TgtCur (removeAll SrcConn (removeAll SrcCur (opened st))))\<rparr>"
  by (auto simp: close_all_def close_def emit_def split: option.splits sum.splits)

section \<open>A source table that the catalog does not know\<close>

text \<open>
  Claim C6 says that introspection fails with a distinct error when the source table does
  not exist. The catalog query of lines 31-34 is a filter: for a table with no catalog rows
  it answers with no rows and raises nothing, line 35 builds the empty column list, and
  the run goes on to send the SELECT of line 39. The program has no \<^verbatim>\<open>SchemaError\<close>.
\<close>

theorem missing_table_introspection_succeeds:
  "filter (in_table ''public'' ''missing'') (catalog (world0 rows3)) = [] \<and>
   \<not> (\<exists>x. introspect (world0 rows3) ''public'' ''missing'' (init_state []) = Inl x) \<and>
   (\<exists>st'. introspect (world0 rows3) ''public'' ''missing'' (init_state []) = Inr ([], st')) \<and>
   (\<exists>st. migrate_table (world0 rows3) params_missing [] = Some (Exited 1, st) \<and>
         Execute SrcCur (select_sql [] ''public'' ''missing'') [] \<in> set (events st))"
  by (simp add: run_defs world_defs transfer_loop.simps Let_def)

text \<open>
  Claim C6, amended. When both connections and cursors open and the catalog query answers,
  and the catalog holds no row for the named source table, introspection returns the empty
  column list without an error, and the SELECT that the run sends has an empty column list.
  If the server rejects that SELECT, the error is not swallowed: the run logs it as the fatal
  error and ends in \<^verbatim>\<open>sys.exit(1)\<close>, the SELECT being the last call on the database,
  with no chunk attempted and the target as it was.
\<close>

theorem missing_table_fails_at_select:
  assumes "setup_ok w p"
    and "filter (in_table (src_schema p) (src_table p)) (catalog w) = []"
  shows "(\<exists>st'. introspect w (src_schema p) (src_table p) st = Inr ([], st')) \<and>
     source_answer w p = select_answer w (select_sql [] (src_schema p) (src_table p)) \<and>
     (\<forall>e. select_answer w (select_sql [] (src_schema p) (src_table p)) = Inl e \<longrightarrow>
        (\<exists>st' evs. migrate_table w p T0 = Some (Exited 1, st') \<and>
           events st' = evs @ [Execute SrcCur (select_sql [] (src_schema p) (src_table p)) [],
                               LogFatal e, SysExit 1] \<and>
           batches_attempted (events st') = [] \<and> committed st' = T0))"
proof (intro conjI allI impI)
  have cols: "columns_query (catalog w) (src_schema p) (src_table p) = []"
    using assms(2) by (simp add: columns_query_def)
  show "\<exists>st'. introspect w (src_schema p) (src_table p) st = Inr ([], st')"
    using assms(1) cols by (simp add: introspect_def setup_ok_def Let_def)
  show ans: "source_answer w p = select_answer w (select_sql [] (src_schema p) (src_table p))"
    using cols by (simp add: source_answer_def)
  fix e
  assume e: "select_answer w (select_sql [] (src_schema p) (src_table p)) = Inl e"
  let ?st0 = "emit (LogStart (src_schema p) (src_table p) (tgt_schema p) (tgt_table p) (chunk_size p))
                (init_state T0)"
  let ?sql = "select_sql [] (src_schema p) (src_table p)"
  obtain st1 where o: "open_handles w p ?st0 = Inr st1"
    using open_handles_raises_iff[of w p ?st0] assms(1)
    by (cases "open_handles w p ?st0") (auto simp: setup_ok_def)
  have q1: "quiet_step ?st0 st1" using open_handles_quiet[of w p ?st0 undefined st1] o by simp
  obtain st2 where i: "introspect w (src_schema p) (src_table p) st1 = Inr ([], st2)"
    using assms(1) cols by (simp add: introspect_def setup_ok_def Let_def)
  have q2: "quiet_step ?st0 st2"
    using introspect_quiet[where w = w and st = st1 and st' = st2 and cols = "[]"] i q1 quiet_trans
    by blast
  have s: "execute_select w ?sql st2 = Inl (e, emit (Execute SrcCur ?sql []) st2)"
    using e by (simp add: execute_select_def)
  have run: "migrate_table w p T0 =
      Some (Exited 1, emit (SysExit 1) (emit (LogFatal e) (emit (Execute SrcCur ?sql []) st2)))"
    using o i s by (simp add: migrate_table_def migrate_body_def)
  have "committed st2 = T0" "batches_attempted (events st2) = []"
    using quiet_target[OF q2] quiet_readings[OF q2]
    by (simp_all add: start_state batches_attempted_def)
  then show "\<exists>st' evs. migrate_table w p T0 = Some (Exited 1, st') \<and>
           events st' = evs @ [Execute SrcCur ?sql [], LogFatal e, SysExit 1] \<and>
           batches_attempted (events st') = [] \<and> committed st' = T0"
    using run
    by (intro exI[of _ "emit (SysExit 1) (emit (LogFatal e) (emit (Execute SrcCur ?sql []) st2))"]
          exI[of _ "events st2"])
       (simp add: emit_def batches_attempted_def)
qed

theorem missing_table_fails_at_select_witness:
  "setup_ok (world0 rows3) params_missing \<and>
   filter (in_table (src_schema params_missing) (src_table params_missing)) (catalog (world0 rows3)) = [] \<and>
   select_answer (world0 rows3) (select_sql [] ''public'' ''missing'') = Inl (DbError ''undefined_table'') \<and>
   (\<exists>st'. introspect (world0 rows3) ''public'' ''missing'' (init_state []) = Inr ([], st')) \<and>
   (\<exists>st' evs. migrate_table (world0 rows3) params_missing rows3 = Some (Exited 1, st') \<and>
      events st' = evs @ [Execute SrcCur (select_sql [] ''public'' ''missing'') [],
                          LogFatal (DbError ''undefined_table''), SysExit 1] \<and>
      batches_attempted (events st') = [] \<and> committed st' = rows3)"
proof -
  have a: "setup_ok (world0 rows3) params_missing"
    by (simp add: setup_ok_def connects_def conn_args_of_def world_defs)
  have b: "filter (in_table (src_schema params_missing) (src_table params_missing))
      (catalog (world0 rows3)) = []"
    by (simp add: in_table_def world_defs)
  have c: "select_answer (world0 rows3) (select_sql [] (src_schema params_missing) (src_table params_missing)) =
      Inl (DbError ''undefined_table'')"
    by (simp add: world_defs select_sql_def dquote_def)
  have d: "src_schema params_missing = ''public''" "src_table params_missing = ''missing''"
    by (simp_all add: world_defs)
  from missing_table_fails_at_select[OF a b, of "init_state []" rows3] c
  show ?thesis using a b unfolding d by blast
qed

section \<open>Column discovery\<close>

text \<open>
  Claim C7. The column list is the column names of the catalog rows of the named schema
  and table, sorted by ordinal position. For a table whose ordinal positions are distinct
  it is the same list in the same order however the catalog stores its rows, and a repeated
  introspection against the unchanged catalog returns the identical list.
\<close>

theorem introspection_is_deterministic:
  assumes "mset cat' = mset cat"
    and "distinct (map ordinal_position (filter (in_table s t) cat))"
  shows "columns_query cat' s t = columns_query cat s t \<and>
     (\<exists>rows. columns_query cat s t = map column_name rows \<and>
        sorted (map ordinal_position rows) \<and>
        mset rows = filter_mset (in_table s t) (mset cat)) \<and>
     (\<forall>w st cols st'. catalog w = cat \<and> introspect w s t st = Inr (cols, st') \<longrightarrow>
        cols = columns_query cat s t \<and> (\<exists>st''. introspect w s t st' = Inr (cols, st'')))"
proof (intro conjI allI impI)
  let ?P = "in_table s t"
  have m: "mset (filter ?P cat') = mset (sort_key ordinal_position (filter ?P cat))"
    using assms(1) by simp
  have "set (filter ?P cat') = set (filter ?P cat)"
    using assms(1) by (metis mset_filter set_mset_mset)
  moreover have "inj_on ordinal_position (set (filter ?P cat))"
    using assms(2) by (simp add: distinct_map)
  ultimately have inj: "inj_on ordinal_position (set (filter ?P cat'))" by simp
  have "sort_key ordinal_position (filter ?P cat') = sort_key ordinal_position (filter ?P cat)"
    by (rule sort_key_inj_key_eq[OF m inj]) simp
  then show "columns_query cat' s t = columns_query cat s t"
    by (simp add: columns_query_def)
  show "\<exists>rows. columns_query cat s t = map column_name rows \<and>
        sorted (map ordinal_position rows) \<and> mset rows = filter_mset ?P (mset cat)"
    by (intro exI[of _ "sort_key ordinal_position (filter ?P cat)"])
       (simp add: columns_query_def)
next
  fix w st cols st'
  assume a: "catalog w = cat \<and> introspect w s t st = Inr (cols, st')"
  then show "cols = columns_query cat s t" using introspect_columns by blast
  from a show "\<exists>st''. introspect w s t st' = Inr (cols, st'')"
    by (auto simp: introspect_def Let_def split: option.splits)
qed

theorem introspection_is_deterministic_witness:
  "mset (rev catalog0) = mset catalog0 \<and>
   distinct (map ordinal_position (filter (in_table ''public'' ''t'') catalog0)) \<and>
   columns_query (rev catalog0) ''public'' ''t'' = columns_query catalog0 ''public'' ''t'' \<and>
   columns_query catalog0 ''public'' ''t'' = [''id'', ''name'']"
proof -
  have a: "mset (rev catalog0) = mset catalog0" by simp
  have b: "distinct (map ordinal_position (filter (in_table ''public'' ''t'') catalog0))"
    by (simp add: catalog0_def in_table_def)
  have c: "columns_query catalog0 ''public'' ''t'' = [''id'', ''name'']"
    by (simp add: columns_query_def catalog0_def in_table_def)
  from introspection_is_deterministic[OF a b] a b c show ?thesis by blast
qed

section \<open>Identifiers in the SQL text\<close>

text \<open>
  Claim C8 says that row values travel only as bound parameters and that every identifier
  put into the SQL text is quoted so that it cannot change the syntax of the statement.
  The first half holds: the text of the INSERT is built from the names only and the row is
  the parameter list of \<^verbatim>\<open>execute\<close>. The second half does not: column names are joined
  with commas and put into the text bare, and schema and table names are put between
  double quotes without doubling a double quote they contain. A table with the single column
  \<^verbatim>\<open>a, b\<close> yields the very text that the two columns \<^verbatim>\<open>a\<close> and \<^verbatim>\<open>b\<close> yield (with
  one placeholder for the two names of the INSERT), and a double quote in a schema name
  moves the boundary between schema and table.
\<close>

theorem identifiers_are_not_quoted:
  "select_sql (join '', '' [''a, b'']) ''s'' ''t'' = select_sql (join '', '' [''a'', ''b'']) ''s'' ''t'' \<and>
   select_sql (join '', '' [''a, b'']) ''s'' ''t'' = ''SELECT a, b FROM '' @ dquote @ ''s'' @ dquote @ ''.'' @ dquote @ ''t'' @ dquote \<and>
   insert_sql ''s'' ''t'' (join '', '' [''a, b'']) (join '', '' (replicate (length [''a, b'']) ''%s'')) =
     ''INSERT INTO '' @ dquote @ ''s'' @ dquote @ ''.'' @ dquote @ ''t'' @ dquote @ '' (a, b) VALUES (%s)'' \<and>
   select_sql ''c'' (''s'' @ dquote @ ''.'' @ dquote @ ''x'') ''t'' =
     select_sql ''c'' ''s'' (''x'' @ dquote @ ''.'' @ dquote @ ''t'')"
  by (simp add: select_sql_def insert_sql_def dquote_def)

lemma chunks_Nil: "chunks b [] = []"
  by (subst chunks.simps) simp

lemma chunks_step: "0 < b \<Longrightarrow> xs \<noteq> [] \<Longrightarrow> chunks b xs = take b xs # chunks b (drop b xs)"
  by (subst chunks.simps) simp

lemma concat_chunks: "0 < b \<Longrightarrow> concat (chunks b xs) = xs"
proof (induction xs rule: length_induct)
  case (1 xs)
  show ?case
  proof (cases "xs = []")
    case True
    then show ?thesis by (simp add: chunks_Nil)
  next
    case False
    have "length (drop b xs) < length xs" using False "1.prems" by simp
    then have "concat (chunks b (drop b xs)) = drop b xs" using "1.IH" "1.prems" by blast
    then show ?thesis using chunks_step[OF "1.prems" False] by simp
  qed
qed

lemma chunk_sizes_0: "chunk_sizes b 0 = []"
  by (simp add: chunk_sizes_def)

lemma chunk_sizes_step:
  assumes "0 < b" "0 < r"
  shows "chunk_sizes b r = min b r # chunk_sizes b (r - b)"
proof (cases "b \<le> r")
  case True
  then have "r div b = Suc ((r - b) div b)" "r mod b = (r - b) mod b"
    using assms by (simp_all add: le_div_geq le_mod_geq)
  then show ?thesis using True by (simp add: chunk_sizes_def)
next
  case False
  then show ?thesis using assms by (simp add: chunk_sizes_def)
qed

lemma length_chunks: "0 < b \<Longrightarrow> map length (chunks b xs) = chunk_sizes b (length xs)"
proof (induction xs rule: length_induct)
  case (1 xs)
  show ?case
  proof (cases "xs = []")
    case True
    then show ?thesis by (simp add: chunk_sizes_0 chunks_Nil)
  next
    case False
    have "length (drop b xs) < length xs" using False "1.prems" by simp
    then have "map length (chunks b (drop b xs)) = chunk_sizes b (length (drop b xs))"
      using "1.IH" "1.prems" by blast
    then show ?thesis using chunks_step[OF "1.prems" False] chunk_sizes_step[of b "length xs"] "1.prems" False
      by simp
  qed
qed

lemma div_of_sum: "0 < b \<Longrightarrow> m < b \<Longrightarrow> (q * b + m) div b = (q::nat)"
  by simp

lemma length_chunk_sizes: "0 < b \<Longrightarrow> length (chunk_sizes b r) = (r + b - 1) div b"
proof -
  assume b: "0 < b"
  define q m where "q = r div b" and "m = r mod b"
  have r: "r = q * b + m" by (simp add: q_def m_def)
  have mb: "m < b" using b by (simp add: m_def)
  have "(r + b - 1) div b = q + (if m = 0 then 0 else 1)"
  proof (cases "m = 0")
    case True
    have "r + b - 1 = q * b + (b - 1)" using r True b by simp
    moreover have "(q * b + (b - 1)) div b = q" using b by (intro div_of_sum) simp_all
    ultimately show ?thesis using True by simp
  next
    case False
    have "r + b - 1 = (q + 1) * b + (m - 1)" using r False by (simp add: algebra_simps)
    moreover have "((q + 1) * b + (m - 1)) div b = q + 1" using b mb by (intro div_of_sum) simp_all
    ultimately show ?thesis using False by simp
  qed
  then show ?thesis by (simp add: chunk_sizes_def q_def m_def)
qed


lemma fetchmany_positive:
  "1 \<le> n \<Longrightarrow> fetchmany n cur = (take (nat n) cur, drop (nat n) cur)"
  by (simp add: fetchmany_def)

lemma batches_attempted_simps:
  "batches_attempted [] = []"
  "batches_attempted (ev # evs) = prepared ev @ batches_attempted evs"
  by (simp_all add: batches_attempted_def)

lemma chunk_results_simps:
  "chunk_results [] = []"
  "chunk_results (ev # evs) = result_of ev @ chunk_results evs"
  by (simp_all add: chunk_results_def)





lemma close_all_ok: "closes_ok w \<Longrightarrow> \<exists>st'. close_all w st = Inr st'"
  by (simp add: close_all_def close_def closes_ok_def)

lemma setup_state:
  assumes "quiet_step (emit (LogStart a b c d n) (init_state T0)) st"
  shows "pending st = []" "committed st = T0" "batches_attempted (events st) = []"
    "chunk_results (events st) = []" "reported_totals (events st) = []"
    "commits (events st) = 0" "rollbacks (events st) = 0"
  using quiet_target[OF assms] quiet_readings[OF assms]
  by (simp_all add: start_state batches_attempted_simps chunk_results_simps reported_totals_simps
      commits_simps rollbacks_simps)

lemma insert_rows_ok:
  "writes_ok w \<Longrightarrow> insert_rows w sql rows st =
     Inr (st\<lparr>events := events st @ map (Execute TgtCur sql) rows, pending := pending st @ rows\<rparr>)"
proof (induction rows arbitrary: st)
  case Nil
  then show ?case by simp
next
  case (Cons r rs)
  have "insert_err w sql r (committed st) (pending st) = None"
    using Cons.prems by (simp add: writes_ok_def)
  then show ?case using Cons.IH[OF Cons.prems] by (simp add: emit_def)
qed

lemma handle_chunk_ok:
  assumes "writes_ok w" "pending st = []"
  shows "handle_chunk w sql k tot rows st =
     Inr (tot + length rows,
          st\<lparr>events := events st @ map (Execute TgtCur sql) rows @ [Commit, LogChunkCommit k (tot + length rows)],
             committed := committed st @ rows, pending := []\<rparr>)"
proof -
  have "commit_err w c pd = None" for c pd using assms(1) by (simp add: writes_ok_def)
  then show ?thesis using insert_rows_ok[OF assms(1), of sql rows st] assms(2)
    by (simp add: handle_chunk_def write_chunk_def commit_def emit_def)
qed

lemma loop_fault_free:
  assumes "reads_ok w" "writes_ok w" "1 \<le> chunk_size p"
  shows "pending st = [] \<Longrightarrow>
     \<exists>st' evs. transfer_loop w p cs ph cur k tot st = Some (Inr (tot + length cur, st')) \<and>
       events st' = events st @ evs \<and>
       committed st' = committed st @ cur \<and> pending st' = [] \<and>
       map snd (batches_attempted evs) = map length (chunks (nat (chunk_size p)) cur) \<and>
       commits evs = length (chunks (nat (chunk_size p)) cur) \<and>
       rollbacks evs = 0 \<and> reported_totals evs = []"
proof (induction cur arbitrary: k tot st rule: length_induct)
  case (1 cur)
  let ?b = "nat (chunk_size p)"
  have b: "0 < ?b" using assms(3) by simp
  have fe: "fetch_err w k = None" using assms(1) by (simp add: reads_ok_def)
  have f: "fetchmany (chunk_size p) cur = (take ?b cur, drop ?b cur)"
    using assms(3) by (rule fetchmany_positive)
  show ?case
  proof (cases "cur = []")
    case True
    have "transfer_loop w p cs ph cur k tot st = Some (Inr (tot, emit (Fetchmany (chunk_size p)) st))"
      using fe f True by (subst transfer_loop.simps) simp
    then show ?thesis using True "1.prems"
      by (intro exI[of _ "emit (Fetchmany (chunk_size p)) st"] exI[of _ "[Fetchmany (chunk_size p)]"])
         (simp add: emit_def batches_attempted_simps commits_simps reported_totals_simps
            rollbacks_simps chunks_Nil)
  next
    case False
    let ?rows = "take ?b cur"
    let ?rest = "drop ?b cur"
    let ?st1 = "emit (LogChunkPrepare (k + 1) (length ?rows)) (emit (Fetchmany (chunk_size p)) st)"
    let ?sql = "insert_sql (tgt_schema p) (tgt_table p) cs ph"
    let ?evs1 = "map (Execute TgtCur ?sql) ?rows @ [Commit, LogChunkCommit (k + 1) (tot + length ?rows)]"
    let ?st2 = "?st1\<lparr>events := events ?st1 @ ?evs1, committed := committed ?st1 @ ?rows, pending := []\<rparr>"
    have ne: "?rows \<noteq> []" using False b by simp
    have ch: "chunks ?b cur = ?rows # chunks ?b ?rest" using chunks_step[OF b False] .
    have p1: "pending ?st1 = []" using "1.prems" by (simp add: emit_def)
    have h: "handle_chunk w ?sql (k + 1) tot ?rows ?st1 = Inr (tot + length ?rows, ?st2)"
      using handle_chunk_ok[OF assms(2) p1] .
    have p2: "pending ?st2 = []" by simp
    have less: "length ?rest < length cur" using False b by simp
    from "1.IH"[rule_format, OF less p2, of "k + 1" "tot + length ?rows"]
    obtain st' evs where
      l: "transfer_loop w p cs ph ?rest (k + 1) (tot + length ?rows) ?st2 =
            Some (Inr (tot + length ?rows + length ?rest, st'))"
      and e3: "events st' = events ?st2 @ evs"
      and c3: "committed st' = committed ?st2 @ ?rest" and p3: "pending st' = []"
      and r3: "map snd (batches_attempted evs) = map length (chunks ?b ?rest)"
        "commits evs = length (chunks ?b ?rest)" "rollbacks evs = 0" "reported_totals evs = []"
      by blast
    have len: "tot + length ?rows + length ?rest = tot + length cur"
      using append_take_drop_id[of ?b cur] by (metis add.assoc length_append)
    have run: "transfer_loop w p cs ph cur k tot st = Some (Inr (tot + length cur, st'))"
      using fe f ne h l unfolding len by (subst transfer_loop.simps) simp
    let ?evs = "[Fetchmany (chunk_size p), LogChunkPrepare (k + 1) (length ?rows)] @ ?evs1 @ evs"
    have ev: "events st' = events st @ ?evs" using e3 by (simp add: emit_def)
    have 1: "map snd (batches_attempted ?evs) = map length (chunks ?b cur)"
      unfolding ch using r3(1)
      by (simp add: reading_append readings_Execute batches_attempted_simps)
    have 2: "commits ?evs = length (chunks ?b cur)"
      unfolding ch using r3(2) by (simp add: reading_append readings_Execute commits_simps)
    have 3: "rollbacks ?evs = 0"
      using r3(3) by (simp add: reading_append readings_Execute rollbacks_simps)
    have 4: "reported_totals ?evs = []"
      using r3(4) by (simp add: reading_append readings_Execute reported_totals_simps)
    have 5: "committed st' = committed st @ cur"
      using c3 by (simp add: emit_def)
    show ?thesis using run ev 1 2 3 4 5 p3 by blast
  qed
qed

lemma world0_ok:
  "setup_ok (world0 rows) (params0 b)" "source_answer (world0 rows) (params0 b) = Inr rows"
  "reads_ok (world0 rows)" "writes_ok (world0 rows)" "closes_ok (world0 rows)"
  "rollbacks_ok (world0 rows)"
  by (simp_all add: setup_ok_def connects_def conn_args_of_def source_answer_def reads_ok_def
      writes_ok_def closes_ok_def rollbacks_ok_def columns_query_def in_table_def
      world0_def params0_def conf0_def catalog0_def)

section \<open>A run in which nothing fails\<close>

text \<open>
  Claim C1. Let the batch size \<open>B\<close> be at least 1 and let the source table answer the
  SELECT with \<open>R\<close> rows. If both connections and cursors open, the catalog query answers,
  and no fetch, insert, commit or close raises, then the run returns, the target holds what
  it held followed by exactly the \<open>R\<close> rows, in order, and the batches attempted are
  \<open>R div B\<close> batches of \<open>B\<close> rows followed, when \<open>R mod B\<close> is not zero, by one batch of
  \<open>R mod B\<close> rows: \<open>ceil(R/B)\<close> batches, each committed by one commit, none rolled back.
  The total reported at the end is \<open>R\<close>.
\<close>

theorem fault_free_run_transfers_every_row:
  assumes "setup_ok w p" and "source_answer w p = Inr rows"
    and "reads_ok w" and "writes_ok w" and "closes_ok w" and "1 \<le> chunk_size p"
  shows "\<exists>st. migrate_table w p T0 = Some (Returned, st) \<and>
     committed st = T0 @ rows \<and>
     map snd (batches_attempted (events st)) =
       replicate (length rows div nat (chunk_size p)) (nat (chunk_size p)) @
       (if length rows mod nat (chunk_size p) = 0 then [] else [length rows mod nat (chunk_size p)]) \<and>
     length (batches_attempted (events st)) =
       (length rows + nat (chunk_size p) - 1) div nat (chunk_size p) \<and>
     commits (events st) = (length rows + nat (chunk_size p) - 1) div nat (chunk_size p) \<and>
     rollbacks (events st) = 0 \<and>
     reported_totals (events st) = [length rows]"
proof -
  let ?st0 = "emit (LogStart (src_schema p) (src_table p) (tgt_schema p) (tgt_table p) (chunk_size p))
                (init_state T0)"
  let ?b = "nat (chunk_size p)"
  have b: "0 < ?b" using assms(6) by simp
  show ?thesis
  proof (cases rule: migrate_body_cases[of w p ?st0])
    case (setup_raised e st1)
    then show ?thesis using assms(1,2) by simp
  next
    case (streaming cur st3)
    have cur: "cur = rows" using streaming(3) assms(2) by simp
    note s3 = setup_state[OF streaming(1)]
    let ?cs = "join '', '' (columns_query (catalog w) (src_schema p) (src_table p))"
    let ?ph = "join '', '' (replicate (length (columns_query (catalog w) (src_schema p) (src_table p))) ''%s'')"
    from loop_fault_free[OF assms(3,4,6) s3(1), of ?cs ?ph rows 0 0]
    obtain st4 evs where
      l: "transfer_loop w p ?cs ?ph rows 0 0 st3 = Some (Inr (0 + length rows, st4))"
      and e4: "events st4 = events st3 @ evs"
      and c4: "committed st4 = committed st3 @ rows"
      and r4: "map snd (batches_attempted evs) = map length (chunks ?b rows)"
        "commits evs = length (chunks ?b rows)" "rollbacks evs = 0" "reported_totals evs = []"
      by blast
    let ?st5 = "emit (LogTotal (length rows) (src_schema p) (src_table p) (tgt_schema p) (tgt_table p)) st4"
    obtain st6 where c: "close_all w ?st5 = Inr st6" using close_all_ok[OF assms(5)] by blast
    have q: "quiet_step ?st5 st6" using close_all_quiet[of w ?st5 undefined st6] c by simp
    have run: "migrate_table w p T0 = Some (Returned, st6)"
      using streaming(4) l c cur by (simp add: migrate_table_def)
    have e5: "events ?st5 = events st3 @ evs @ [LogTotal (length rows) (src_schema p) (src_table p) (tgt_schema p) (tgt_table p)]"
      using e4 by (simp add: emit_def)
    have sizes: "map snd (batches_attempted (events st6)) = chunk_sizes ?b (length rows)"
      using quiet_readings[OF q] e5 s3 r4 length_chunks[OF b, of rows]
      by (simp add: reading_append batches_attempted_simps)
    have n: "length (chunk_sizes ?b (length rows)) = (length rows + ?b - 1) div ?b"
      using length_chunk_sizes[OF b] .
    have 1: "committed st6 = T0 @ rows"
      using quiet_target[OF q] c4 s3 by (simp add: emit_def)
    have 2: "length (batches_attempted (events st6)) = (length rows + ?b - 1) div ?b"
      using sizes n by (metis length_map)
    have 3: "commits (events st6) = (length rows + ?b - 1) div ?b"
      using quiet_readings[OF q] e5 s3 r4 n length_chunks[OF b, of rows]
      by (simp add: reading_append commits_simps) (metis length_map)
    have 4: "rollbacks (events st6) = 0"
      using quiet_readings[OF q] e5 s3 r4 by (simp add: reading_append rollbacks_simps)
    have 5: "reported_totals (events st6) = [length rows]"
      using quiet_readings[OF q] e5 s3 r4 by (simp add: reading_append reported_totals_simps)
    show ?thesis
      using run 1 sizes[unfolded chunk_sizes_def] 2 3 4 5 by blast
  qed
qed

theorem fault_free_run_transfers_every_row_witness:
  "setup_ok (world0 (rows_n 1250)) (params0 500) \<and>
   source_answer (world0 (rows_n 1250)) (params0 500) = Inr (rows_n 1250) \<and>
   reads_ok (world0 (rows_n 1250)) \<and> writes_ok (world0 (rows_n 1250)) \<and>
   closes_ok (world0 (rows_n 1250)) \<and> 1 \<le> chunk_size (params0 500) \<and>
   (\<exists>st. migrate_table (world0 (rows_n 1250)) (params0 500) [] = Some (Returned, st) \<and>
      committed st = rows_n 1250 \<and> length (committed st) = 1250 \<and>
      map snd (batches_attempted (events st)) = [500, 500, 250] \<and>
      commits (events st) = 3 \<and> rollbacks (events st) = 0 \<and>
      reported_totals (events st) = [1250])"
proof -
  have b: "1 \<le> chunk_size (params0 500)" "nat (chunk_size (params0 500)) = 500"
    by (simp_all add: params0_def)
  have n: "length (rows_n 1250) = 1250" by (simp add: rows_n_def)
  have r: "replicate (1250 div 500) (500::nat) @ (if (1250::nat) mod 500 = 0 then [] else [1250 mod 500]) =
      [500, 500, 250]"
    by (simp add: numeral_2_eq_2)
  have d: "((1250::nat) + 500 - 1) div 500 = 3" by simp
  from fault_free_run_transfers_every_row[OF world0_ok(1,2,3,4,5) b(1), of "rows_n 1250" "[]"]
  obtain st where "migrate_table (world0 (rows_n 1250)) (params0 500) [] = Some (Returned, st)"
    "committed st = rows_n 1250"
    "map snd (batches_attempted (events st)) = [500, 500, 250]"
    "commits (events st) = 3" "rollbacks (events st) = 0" "reported_totals (events st) = [1250]"
    unfolding b(2) n r d by auto
  then show ?thesis using world0_ok b(1) n by auto
qed

section \<open>Write failures\<close>




end
